theory Spec2Isabelle
  imports Main "HOL-Library.Word"
begin

section \<open>JavaScript strings\<close>

text \<open>
  The provisioning core (\<^verbatim>\<open>src/core/shell-env.ts\<close>) is string processing around a few
  file-system calls. A JavaScript string is a sequence of UTF-16 code units, so a string
  is modelled as a list of 16-bit words; \<open>js\<close> embeds an ASCII literal.
\<close>

type_synonym jschar = "16 word"
type_synonym jsstring = "jschar list"

definition js :: "string \<Rightarrow> jsstring" where
  "js s = map of_char s"

definition newline :: jschar where "newline = 0x0A"
definition dquote :: jschar where "dquote = 0x22"
definition squote :: jschar where "squote = 0x27"
definition backslash :: jschar where "backslash = 0x5C"
definition hash :: jschar where "hash = 0x23"
definition equals :: jschar where "equals = 0x3D"
definition slash :: jschar where "slash = 0x2F"

text \<open>
  The code units that \<^verbatim>\<open>trim\<close>, \<^verbatim>\<open>trimStart\<close> and \<^verbatim>\<open>trimEnd\<close> remove: ECMAScript's
  WhiteSpace (TAB, VT, FF, SP, NBSP, ZWNBSP and the space separators) and LineTerminator
  (LF, CR, LS, PS).
\<close>

definition isWhiteSpace :: "jschar \<Rightarrow> bool" where
  "isWhiteSpace c =
     (c = 0x09 \<or> c = 0x0A \<or> c = 0x0B \<or> c = 0x0C \<or> c = 0x0D \<or> c = 0x20 \<or> c = 0xA0
      \<or> c = 0x1680 \<or> (0x2000 \<le> c \<and> c \<le> 0x200A) \<or> c = 0x2028 \<or> c = 0x2029
      \<or> c = 0x202F \<or> c = 0x205F \<or> c = 0x3000 \<or> c = 0xFEFF)"

definition trimStart :: "jsstring \<Rightarrow> jsstring" where
  "trimStart s = dropWhile isWhiteSpace s"

definition trimEnd :: "jsstring \<Rightarrow> jsstring" where
  "trimEnd s = rev (dropWhile isWhiteSpace (rev s))"

definition trim :: "jsstring \<Rightarrow> jsstring" where
  "trim s = trimEnd (trimStart s)"

text \<open>\<^verbatim>\<open>s.startsWith(p)\<close> and \<^verbatim>\<open>s.endsWith(p)\<close>.\<close>

fun startsWith :: "jsstring \<Rightarrow> jsstring \<Rightarrow> bool" where
  "startsWith s [] = True"
| "startsWith [] (p # ps) = False"
| "startsWith (c # cs) (p # ps) = (c = p \<and> startsWith cs ps)"

definition endsWith :: "jsstring \<Rightarrow> jsstring \<Rightarrow> bool" where
  "endsWith s p = startsWith (rev s) (rev p)"

text \<open>
  \<^verbatim>\<open>s.indexOf(p, from)\<close>: the least position at or after \<open>from\<close> (clamped to the string)
  where \<open>p\<close> occurs, and \<open>-1\<close> when there is none. \<^verbatim>\<open>s.includes(p)\<close> is
  \<^verbatim>\<open>s.indexOf(p) !== -1\<close>.
\<close>

fun indexOfAux :: "jsstring \<Rightarrow> jsstring \<Rightarrow> nat \<Rightarrow> int" where
  "indexOfAux [] p k = (if p = [] then int k else - 1)"
| "indexOfAux (c # cs) p k =
     (if startsWith (c # cs) p then int k else indexOfAux cs p (Suc k))"

definition indexOf :: "jsstring \<Rightarrow> jsstring \<Rightarrow> int \<Rightarrow> int" where
  "indexOf s p from =
     (let k = nat (min (max from 0) (int (length s))) in indexOfAux (drop k s) p k)"

definition includes_str :: "jsstring \<Rightarrow> jsstring \<Rightarrow> bool" where
  "includes_str s p = (indexOf s p 0 \<noteq> - 1)"

text \<open>
  \<^verbatim>\<open>s.slice(from, to)\<close> and \<^verbatim>\<open>s.slice(from)\<close>: a negative index counts from the end, and
  both indices are clamped to the string.
\<close>

definition sliceIndex :: "nat \<Rightarrow> int \<Rightarrow> nat" where
  "sliceIndex len i = (if i < 0 then nat (max (int len + i) 0) else min (nat i) len)"

definition slice :: "jsstring \<Rightarrow> int \<Rightarrow> int \<Rightarrow> jsstring" where
  "slice s from to =
     (let a = sliceIndex (length s) from; b = sliceIndex (length s) to
      in take (b - a) (drop a s))"

definition sliceFrom :: "jsstring \<Rightarrow> int \<Rightarrow> jsstring" where
  "sliceFrom s from = drop (sliceIndex (length s) from) s"

text \<open>\<^verbatim>\<open>s.split(sep)\<close> for a one-character separator; the empty string splits into \<open>[""]\<close>.\<close>

fun split :: "jsstring \<Rightarrow> jschar \<Rightarrow> jsstring list" where
  "split [] sep = [[]]"
| "split (c # cs) sep =
     (if c = sep then [] # split cs sep
      else (case split cs sep of [] \<Rightarrow> [[c]] | l # ls \<Rightarrow> (c # l) # ls))"

text \<open>
  \<^verbatim>\<open>s.replaceAll(p, r)\<close> for a string pattern and a replacement without \<^verbatim>\<open>$\<close>: occurrences
  are replaced from left to right and do not overlap; the empty pattern matches between
  all code units.
\<close>

function replaceAll :: "jsstring \<Rightarrow> jsstring \<Rightarrow> jsstring \<Rightarrow> jsstring" where
  "replaceAll [] p r = (if p = [] then r else [])"
| "replaceAll (c # cs) p r =
     (if p = [] then r @ c # replaceAll cs p r
      else if startsWith (c # cs) p then r @ replaceAll (drop (length p) (c # cs)) p r
      else c # replaceAll cs p r)"
  by pat_completeness auto
termination
  by (relation "measure (\<lambda>(s, p, r). length s)") auto

text \<open>JavaScript truthiness of a value of type \<^verbatim>\<open>string | null | undefined\<close>.\<close>

definition truthy :: "jsstring option \<Rightarrow> bool" where
  "truthy v = (case v of None \<Rightarrow> False | Some s \<Rightarrow> s \<noteq> [])"

section \<open>Constants and key normalisation\<close>

datatype ShellType = Zsh | Bash | Powershell | PowershellCore | Unknown

datatype ShellEnvStatus = Updated | Skipped | Failed

record ShellEnvResult =
  status :: ShellEnvStatus
  message :: "jsstring option"
  path :: "jsstring option"

definition SETTINGS_FILE :: jsstring where
  "SETTINGS_FILE = js ''settings.json''"

definition BLOCK_START_UNIX :: jsstring where
  "BLOCK_START_UNIX = js ''# claude-sneakpeek: Z.ai env start''"

definition BLOCK_END_UNIX :: jsstring where
  "BLOCK_END_UNIX = js ''# claude-sneakpeek: Z.ai env end''"

definition BLOCK_START_POWERSHELL :: jsstring where
  "BLOCK_START_POWERSHELL = js ''# claude-sneakpeek: Z.ai env start''"

definition BLOCK_END_POWERSHELL :: jsstring where
  "BLOCK_END_POWERSHELL = js ''# claude-sneakpeek: Z.ai env end''"

definition PLACEHOLDER_KEY :: jsstring where
  "PLACEHOLDER_KEY = js ''<API_KEY>''"

definition normalizeApiKey :: "jsstring option \<Rightarrow> jsstring option" where
  "normalizeApiKey v =
     (case v of
        None \<Rightarrow> None
      | Some s \<Rightarrow>
          if s = [] then None
          else (let trimmed = trim s
                in if trimmed = [] \<or> trimmed = PLACEHOLDER_KEY then None else Some trimmed))"

section \<open>Parsing a quoted value\<close>

definition parseQuotedValue :: "jsstring \<Rightarrow> jsstring option" where
  "parseQuotedValue v =
     (let val = trim v in
      if length val < 2 then None
      else (let firstChar = val ! 0; lastChar = val ! (length val - 1) in
        if (firstChar = dquote \<and> lastChar = dquote) \<or> (firstChar = squote \<and> lastChar = squote)
        then (let inner = slice val 1 (- 1); escapeChar = firstChar
              in Some (replaceAll inner [backslash, escapeChar] [escapeChar]))
        else Some val))"

section \<open>Rendering and upserting the marked block\<close>

definition renderBlock :: "jsstring \<Rightarrow> ShellType \<Rightarrow> jsstring" where
  \<open>renderBlock apiKey shell =
     (if shell = Powershell \<or> shell = PowershellCore
      then BLOCK_START_POWERSHELL @ [newline] @ js ''$env:Z_AI_API_KEY="'' @ apiKey
             @ js ''"'' @ [newline] @ BLOCK_END_POWERSHELL @ [newline]
      else BLOCK_START_UNIX @ [newline] @ js ''export Z_AI_API_KEY="'' @ apiKey
             @ js ''"'' @ [newline] @ BLOCK_END_UNIX @ [newline])\<close>

definition getBlockMarkers :: "ShellType \<Rightarrow> jsstring \<times> jsstring" where
  "getBlockMarkers shell =
     (if shell = Powershell \<or> shell = PowershellCore
      then (BLOCK_START_POWERSHELL, BLOCK_END_POWERSHELL)
      else (BLOCK_START_UNIX, BLOCK_END_UNIX))"

text \<open>
  \<open>endIndex\<close> is \<open>-1\<close> when the end marker occurs only before the first start marker; the
  source then slices at \<open>-1 + end.length\<close>, and so does the model.
\<close>

definition upsertBlock :: "jsstring \<Rightarrow> jsstring \<Rightarrow> ShellType \<Rightarrow> jsstring" where
  "upsertBlock content block shell =
     (let (start, endm) = getBlockMarkers shell in
      if includes_str content start \<and> includes_str content endm
      then (let startIndex = indexOf content start 0;
                endIndex = indexOf content endm startIndex;
                before = trimEnd (slice content 0 startIndex);
                after = trimStart (sliceFrom content (endIndex + int (length endm)))
            in trimEnd (before @ [newline, newline] @ block @ [newline] @ after) @ [newline])
      else trimEnd (trimEnd content @ [newline, newline] @ block) @ [newline])"

section \<open>Scanning a profile for an assignment\<close>

text \<open>
  The body of the loop of \<^verbatim>\<open>hasZaiKeyInProfile\<close> for one line: \<open>True\<close> where the source
  returns true, \<open>False\<close> where it continues with the next line.
\<close>

definition zaiKeyInLine :: "jsstring \<Rightarrow> ShellType \<Rightarrow> bool" where
  \<open>zaiKeyInLine line shell =
     (let trimmed = trim line in
      if trimmed = [] \<or> startsWith trimmed [hash] then False
      else if shell = Powershell \<or> shell = PowershellCore
      then (let envStripped =
                  (if startsWith trimmed (js ''$env:'') then sliceFrom trimmed 5 else trimmed)
            in if \<not> startsWith envStripped (js ''Z_AI_API_KEY'') then False
               else (let equalsIndex = indexOf envStripped [equals] 0
                     in if equalsIndex = - 1 then False
                        else (let rawValue = trim (sliceFrom envStripped (equalsIndex + 1));
                                  val = parseQuotedValue rawValue
                              in truthy val \<and> normalizeApiKey val \<noteq> None)))
      else (let exportStripped =
                  (if startsWith trimmed (js ''export '') then trim (sliceFrom trimmed 7)
                   else trimmed)
            in if \<not> startsWith exportStripped (js ''Z_AI_API_KEY'') then False
               else (let equalsIndex = indexOf exportStripped [equals] 0
                     in if equalsIndex = - 1 then False
                        else (let rawValue = trim (sliceFrom exportStripped (equalsIndex + 1));
                                  val = parseQuotedValue rawValue
                              in truthy val \<and> normalizeApiKey val \<noteq> None))))\<close>

fun hasZaiKeyInLines :: "jsstring list \<Rightarrow> ShellType \<Rightarrow> bool" where
  "hasZaiKeyInLines [] shell = False"
| "hasZaiKeyInLines (line # lines) shell =
     (if zaiKeyInLine line shell then True else hasZaiKeyInLines lines shell)"

definition hasZaiKeyInProfile :: "jsstring \<Rightarrow> ShellType \<Rightarrow> bool" where
  "hasZaiKeyInProfile content shell = hasZaiKeyInLines (split content newline) shell"

section \<open>The file system and the process\<close>

text \<open>
  A thrown JavaScript \<^verbatim>\<open>Error\<close> is a value carrying its message. The file system is a
  map from paths to file contents and a set of directories; which reads, writes and
  directory creations fail for reasons outside the model (permissions, a missing parent
  directory, a full disk) is part of the state, with the message of the error raised.

  \<^verbatim>\<open>fs.writeFileSync\<close> opens the file with \<^verbatim>\<open>O_CREAT | O_TRUNC\<close> and then writes. A write
  can therefore fail in two ways: at the open, which leaves the file system as it was, or
  after the open, which leaves the file created or truncated, holding the part of the
  data written before the failure (nothing, when the disk is full).
\<close>

datatype error = Thrown jsstring

datatype writeFailure = OpenFails jsstring | WriteFails jsstring nat

record filesystem =
  files :: "jsstring \<rightharpoonup> jsstring"
  dirs :: "jsstring set"
  readFault :: "jsstring \<rightharpoonup> jsstring"
  writeFault :: "jsstring \<rightharpoonup> writeFailure"
  mkdirFault :: "jsstring \<rightharpoonup> jsstring"

definition existsSync :: "filesystem \<Rightarrow> jsstring \<Rightarrow> bool" where
  "existsSync fs p = (p \<in> dom (files fs) \<or> p \<in> dirs fs)"

definition readFileSync :: "filesystem \<Rightarrow> jsstring \<Rightarrow> error + jsstring" where
  "readFileSync fs p =
     (case readFault fs p of
        Some m \<Rightarrow> Inl (Thrown m)
      | None \<Rightarrow>
          (case files fs p of
             Some c \<Rightarrow> Inr c
           | None \<Rightarrow>
               if p \<in> dirs fs then Inl (Thrown (js ''EISDIR: illegal operation on a directory, read''))
               else Inl (Thrown (js ''ENOENT: no such file or directory''))))"

text \<open>
  The result of a write is the file system after a write that succeeds (\<open>Inr\<close>), or the
  error thrown together with the file system the failed write leaves behind (\<open>Inl\<close>).
\<close>

definition writeFileSync ::
  "filesystem \<Rightarrow> jsstring \<Rightarrow> jsstring \<Rightarrow> (error \<times> filesystem) + filesystem" where
  "writeFileSync fs p d =
     (case writeFault fs p of
        Some (OpenFails m) \<Rightarrow> Inl (Thrown m, fs)
      | Some (WriteFails m n) \<Rightarrow>
          if p \<in> dirs fs
          then Inl (Thrown (js ''EISDIR: illegal operation on a directory, open''), fs)
          else Inl (Thrown m, fs\<lparr>files := (files fs)(p \<mapsto> take n d)\<rparr>)
      | None \<Rightarrow>
          if p \<in> dirs fs
          then Inl (Thrown (js ''EISDIR: illegal operation on a directory, open''), fs)
          else Inr (fs\<lparr>files := (files fs)(p \<mapsto> d)\<rparr>))"

text \<open>
  \<^verbatim>\<open>fs.mkdirSync(dir, { recursive: true })\<close>. Only the directory itself is recorded as
  created; the missing ancestors that the recursive call creates too, also when it fails
  on the way, are not tracked.
\<close>

definition mkdirSync :: "filesystem \<Rightarrow> jsstring \<Rightarrow> error + filesystem" where
  "mkdirSync fs p =
     (case mkdirFault fs p of
        Some m \<Rightarrow> Inl (Thrown m)
      | None \<Rightarrow>
          if files fs p \<noteq> None then Inl (Thrown (js ''EEXIST: file already exists, mkdir''))
          else Inr (fs\<lparr>dirs := insert p (dirs fs)\<rparr>))"

text \<open>
  The settings document as \<^verbatim>\<open>readSettingsApiKey\<close> looks at it: an optional \<^verbatim>\<open>env\<close> record
  whose values are strings or numbers.
\<close>

datatype envValue = EnvString jsstring | EnvNumber int

record SettingsFile =
  settingsEnv :: "(jsstring \<rightharpoonup> envValue) option"

text \<open>
  What the module reads from its surroundings: the platform flag of \<^verbatim>\<open>./paths.js\<close>,
  \<^verbatim>\<open>process.env\<close>, \<^verbatim>\<open>os.homedir()\<close>, the functions of \<^verbatim>\<open>node:path\<close> (which differ between
  platforms), and \<^verbatim>\<open>readJson\<close> of \<^verbatim>\<open>./fs.js\<close>, whose source is not part of the files at
  hand: it is a parameter, and may return a document, \<^verbatim>\<open>null\<close>, or throw.
\<close>

record runtime =
  isWindows :: bool
  env :: "jsstring \<rightharpoonup> jsstring"
  homedir :: jsstring
  basename :: "jsstring \<Rightarrow> jsstring"
  dirname :: "jsstring \<Rightarrow> jsstring"
  pathJoin :: "jsstring \<Rightarrow> jsstring \<Rightarrow> jsstring"
  readJson :: "filesystem \<Rightarrow> jsstring \<Rightarrow> error + SettingsFile option"

section \<open>Shell detection and profile resolution\<close>

definition detectShell :: "runtime \<Rightarrow> ShellType" where
  "detectShell rt =
     (if isWindows rt
      then (if truthy (env rt (js ''PSModulePath''))
            then (if truthy (env rt (js ''PWSH'')) then PowershellCore else Powershell)
            else (case env rt (js ''SHELL'') of
                    None \<Rightarrow> Unknown
                  | Some sh \<Rightarrow>
                      if sh \<noteq> [] \<and> includes_str sh (js ''bash'') then Bash else Unknown))
      else (let shell = (case env rt (js ''SHELL'') of None \<Rightarrow> [] | Some sh \<Rightarrow> sh);
                name = basename rt shell
            in if name = js ''zsh'' then Zsh
               else if name = js ''bash'' then Bash
               else Unknown))"

definition resolveShellProfile :: "runtime \<Rightarrow> filesystem \<Rightarrow> jsstring option" where
  "resolveShellProfile rt fs =
     (let home = homedir rt; shell = detectShell rt in
      if shell = Powershell \<or> shell = PowershellCore
      then (case (case env rt (js ''PROFILE'') of
                    None \<Rightarrow> None
                  | Some pe \<Rightarrow> if pe \<noteq> [] \<and> existsSync fs pe then Some pe else None) of
              Some pe \<Rightarrow> Some pe
            | None \<Rightarrow>
                (let documentsPath = pathJoin rt home (js ''Documents'');
                     psPath = pathJoin rt documentsPath (js ''WindowsPowerShell'');
                     ps7Path = pathJoin rt documentsPath (js ''PowerShell'')
                 in if shell = PowershellCore
                    then (let profile = pathJoin rt ps7Path (js ''Microsoft.PowerShell_profile.ps1'')
                          in if existsSync fs profile then Some profile else Some profile)
                    else (let profile = pathJoin rt psPath (js ''Microsoft.PowerShell_profile.ps1'')
                          in if existsSync fs profile then Some profile else Some profile)))
      else if shell = Bash
      then (let bashrc = pathJoin rt home (js ''.bashrc'')
            in if existsSync fs bashrc then Some bashrc
               else Some (pathJoin rt home (js ''.bash_profile'')))
      else if shell = Zsh then Some (pathJoin rt home (js ''.zshrc''))
      else None)"

definition detectShellFromPath :: "runtime \<Rightarrow> jsstring \<Rightarrow> ShellType" where
  "detectShellFromPath rt profilePath =
     (let bn = basename rt profilePath in
      if endsWith bn (js ''.ps1'') then Powershell
      else if bn = js ''.zshrc'' then Zsh
      else if bn = js ''.bashrc'' \<or> bn = js ''.bash_profile'' then Bash
      else Unknown)"

definition readSettingsApiKey ::
  "runtime \<Rightarrow> filesystem \<Rightarrow> jsstring \<Rightarrow> error + jsstring option" where
  "readSettingsApiKey rt fs configDir =
     (let settingsPath = pathJoin rt configDir SETTINGS_FILE in
      if \<not> existsSync fs settingsPath then Inr None
      else (case readJson rt fs settingsPath of
              Inl e \<Rightarrow> Inl e
            | Inr None \<Rightarrow> Inr None
            | Inr (Some settings) \<Rightarrow>
                (case settingsEnv settings of
                   None \<Rightarrow> Inr None
                 | Some m \<Rightarrow>
                     (case m (js ''ANTHROPIC_API_KEY'') of
                        Some (EnvString key) \<Rightarrow> Inr (normalizeApiKey (Some key))
                      | _ \<Rightarrow> Inr None))))"

section \<open>The provisioner\<close>

record opts =
  apiKey :: "jsstring option"
  configDir :: jsstring
  profilePath :: "jsstring option"

text \<open>
  Three expressions of \<^verbatim>\<open>ensureZaiShellEnv\<close>, named so that statements about it can refer
  to them: the key (\<^verbatim>\<open>normalizeApiKey(opts.apiKey) || readSettingsApiKey(opts.configDir)\<close>),
  the profile (\<^verbatim>\<open>opts.profilePath ?? resolveShellProfile()\<close>) and the shell
  (\<^verbatim>\<open>opts.profilePath ? detectShellFromPath(opts.profilePath) : detectShell()\<close>).
\<close>

definition resolveApiKey :: "runtime \<Rightarrow> filesystem \<Rightarrow> opts \<Rightarrow> error + jsstring option" where
  "resolveApiKey rt fs req =
     (case normalizeApiKey (apiKey req) of
        Some k \<Rightarrow> Inr (Some k)
      | None \<Rightarrow> readSettingsApiKey rt fs (configDir req))"

definition resolveProfile :: "runtime \<Rightarrow> filesystem \<Rightarrow> opts \<Rightarrow> jsstring option" where
  "resolveProfile rt fs req =
     (case profilePath req of Some p \<Rightarrow> Some p | None \<Rightarrow> resolveShellProfile rt fs)"

definition resolveShell :: "runtime \<Rightarrow> opts \<Rightarrow> ShellType" where
  "resolveShell rt req =
     (case profilePath req of
        None \<Rightarrow> detectShell rt
      | Some p \<Rightarrow> if p \<noteq> [] then detectShellFromPath rt p else detectShell rt)"

text \<open>
  The directory creation is inside \<^verbatim>\<open>try { ... } catch { }\<close>: its failure is ignored.
\<close>

definition tryMkdir :: "filesystem \<Rightarrow> jsstring \<Rightarrow> filesystem" where
  "tryMkdir fs dir = (case mkdirSync fs dir of Inl e \<Rightarrow> fs | Inr fs' \<Rightarrow> fs')"

definition readExisting :: "filesystem \<Rightarrow> jsstring \<Rightarrow> error + jsstring" where
  "readExisting fs profile = (if existsSync fs profile then readFileSync fs profile else Inr [])"

definition unsupportedShell :: "runtime \<Rightarrow> ShellEnvResult" where
  "unsupportedShell rt =
     \<lparr>status = Failed,
      message = Some
        (if isWindows rt
         then js ''Unsupported shell; please use PowerShell or Git Bash. Set Z_AI_API_KEY manually in settings.json.''
         else js ''Unsupported shell; set Z_AI_API_KEY manually''),
      path = None\<rparr>"

text \<open>
  The result is the value returned (\<open>Inr\<close>) or the error thrown (\<open>Inl\<close>), together with
  the file system the call leaves behind. \<^verbatim>\<open>!profile\<close> holds for \<^verbatim>\<open>null\<close> and for the
  empty string.
\<close>

definition ensureZaiShellEnv ::
  "runtime \<Rightarrow> opts \<Rightarrow> filesystem \<Rightarrow> (error + ShellEnvResult) \<times> filesystem" where
  "ensureZaiShellEnv rt req fs =
     (case resolveApiKey rt fs req of
        Inl e \<Rightarrow> (Inl e, fs)
      | Inr None \<Rightarrow>
          (Inr \<lparr>status = Skipped,
                message = Some (js ''Z_AI_API_KEY not set (missing API key)''),
                path = None\<rparr>, fs)
      | Inr (Some key) \<Rightarrow>
          (case normalizeApiKey (env rt (js ''Z_AI_API_KEY'')) of
             Some envKey \<Rightarrow>
               (Inr \<lparr>status = Skipped,
                     message = Some (js ''Z_AI_API_KEY already set in environment''),
                     path = None\<rparr>, fs)
           | None \<Rightarrow>
               (case resolveProfile rt fs req of
                  None \<Rightarrow> (Inr (unsupportedShell rt), fs)
                | Some profile \<Rightarrow>
                    if profile = [] then (Inr (unsupportedShell rt), fs)
                    else
                      (let shell = resolveShell rt req;
                           profileDir = dirname rt profile;
                           fs1 = tryMkdir fs profileDir
                       in case readExisting fs1 profile of
                            Inl e \<Rightarrow> (Inl e, fs1)
                          | Inr existing \<Rightarrow>
                              if hasZaiKeyInProfile existing shell
                              then (Inr \<lparr>status = Skipped,
                                         message = Some (js ''Z_AI_API_KEY already set in shell profile''),
                                         path = Some profile\<rparr>, fs1)
                              else
                                (let block = renderBlock key shell;
                                     next = upsertBlock existing block shell
                                 in if next = existing
                                    then (Inr \<lparr>status = Skipped,
                                               message = Some (js ''Shell profile already up to date''),
                                               path = Some profile\<rparr>, fs1)
                                    else
                                      (case writeFileSync fs1 profile next of
                                         Inl (e, fs2) \<Rightarrow> (Inl e, fs2)
                                       | Inr fs2 \<Rightarrow>
                                           (Inr \<lparr>status = Updated,
                                                 message = Some
                                                   (if shell = Powershell \<or> shell = PowershellCore
                                                    then js ''Run: . $PROFILE''
                                                    else js ''Run: source '' @ profile),
                                                 path = Some profile\<rparr>, fs2)))))))"

section \<open>A POSIX runtime for concrete runs\<close>

text \<open>
  \<^verbatim>\<open>path.posix.basename\<close> and \<^verbatim>\<open>path.posix.dirname\<close> of Node.js, and \<^verbatim>\<open>path.posix.join\<close> for
  two non-empty segments that need no normalisation. The statements below hold for every
  runtime; these functions only serve to run the model on concrete inputs.
\<close>

definition posixBasename :: "jsstring \<Rightarrow> jsstring" where
  "posixBasename p =
     rev (takeWhile (\<lambda>c. c \<noteq> slash) (dropWhile (\<lambda>c. c = slash) (rev p)))"

definition posixDirname :: "jsstring \<Rightarrow> jsstring" where
  "posixDirname p =
     (case p of
        [] \<Rightarrow> js ''.''
      | c # cs \<Rightarrow>
          (let hasRoot = (c = slash);
               e = length (dropWhile (\<lambda>c. c \<noteq> slash) (dropWhile (\<lambda>c. c = slash) (rev cs)))
           in if e = 0 then (if hasRoot then js ''/'' else js ''.'')
              else if hasRoot \<and> e = 1 then js ''//''
              else take e p))"

definition posixJoin :: "jsstring \<Rightarrow> jsstring \<Rightarrow> jsstring" where
  "posixJoin a b = a @ [slash] @ b"

definition emptyFs :: filesystem where
  "emptyFs = \<lparr>files = Map.empty, dirs = {}, readFault = Map.empty, writeFault = Map.empty,
              mkdirFault = Map.empty\<rparr>"

definition posixRuntime :: runtime where
  "posixRuntime =
     \<lparr>isWindows = False, env = Map.empty, homedir = js ''/home/u'', basename = posixBasename,
      dirname = posixDirname, pathJoin = posixJoin, readJson = (\<lambda>fs p. Inr None)\<rparr>"

text \<open>
  Requests and file systems of the scenarios run below: a request with an explicit profile
  path, a settings document whose key is the placeholder (the sidecar of the test suite), a
  file system holding one profile, and file systems where the write or the read of one
  path fails.
\<close>

definition sampleRequest :: "jsstring option \<Rightarrow> jsstring \<Rightarrow> opts" where
  "sampleRequest k p = \<lparr>apiKey = k, configDir = js ''/tmp/x/config'', profilePath = Some p\<rparr>"

definition placeholderSettings :: SettingsFile where
  "placeholderSettings =
     \<lparr>settingsEnv = Some [js ''ANTHROPIC_API_KEY'' \<mapsto> EnvString (js ''<API_KEY>'')]\<rparr>"

definition placeholderRuntime :: runtime where
  "placeholderRuntime =
     posixRuntime\<lparr>readJson := (\<lambda>fs p.
        if p = js ''/tmp/x/config/settings.json'' then Inr (Some placeholderSettings)
        else Inr None)\<rparr>"

definition settingsFs :: filesystem where
  \<open>settingsFs =
     emptyFs\<lparr>files := [js ''/tmp/x/config/settings.json''
                           \<mapsto> js ''{"env":{"ANTHROPIC_API_KEY":"<API_KEY>"}}''],
             dirs := {js ''/tmp/x'', js ''/tmp/x/config''}\<rparr>\<close>

definition fileFs :: "jsstring \<Rightarrow> jsstring \<Rightarrow> filesystem" where
  "fileFs p c = emptyFs\<lparr>files := [p \<mapsto> c], dirs := {js ''/tmp/x''}\<rparr>"

definition faultyFs :: "jsstring \<Rightarrow> writeFailure \<Rightarrow> filesystem" where
  "faultyFs p w = emptyFs\<lparr>dirs := {js ''/tmp/x''}, writeFault := [p \<mapsto> w]\<rparr>"


section \<open>Facts about the string functions\<close>

lemmas string_defs = js_def newline_def dquote_def squote_def backslash_def hash_def equals_def
  slash_def isWhiteSpace_def trimStart_def trimEnd_def trim_def endsWith_def indexOf_def
  includes_str_def sliceIndex_def slice_def sliceFrom_def truthy_def

lemmas block_defs = BLOCK_START_UNIX_def BLOCK_END_UNIX_def BLOCK_START_POWERSHELL_def
  BLOCK_END_POWERSHELL_def PLACEHOLDER_KEY_def renderBlock_def getBlockMarkers_def upsertBlock_def

lemma trimEnd_last: "trimEnd s = [] \<or> \<not> isWhiteSpace (last (trimEnd s))"
proof (cases "dropWhile isWhiteSpace (rev s)")
  case Nil
  then show ?thesis by (simp add: trimEnd_def)
next
  case (Cons c cs)
  then have "\<not> isWhiteSpace c"
    using hd_dropWhile [of isWhiteSpace "rev s"] by simp
  with Cons show ?thesis by (simp add: trimEnd_def)
qed

lemma trimStart_nonws: "\<not> isWhiteSpace c \<Longrightarrow> trimStart (c # s) = c # s"
  by (simp add: trimStart_def)

lemma trimEnd_nonws: "\<not> isWhiteSpace c \<Longrightarrow> trimEnd (s @ [c]) = s @ [c]"
  by (simp add: trimEnd_def)

lemma dquote_nonws: "\<not> isWhiteSpace dquote"
  by (simp add: isWhiteSpace_def dquote_def)

lemma startsWith_iff: "startsWith s p \<longleftrightarrow> (\<exists>r. s = p @ r)"
  by (induction s p rule: startsWith.induct) auto

lemma replaceAll_absent: "p \<noteq> [] \<Longrightarrow> hd p \<notin> set s \<Longrightarrow> replaceAll s p r = s"
proof (induction s)
  case Nil
  then show ?case by simp
next
  case (Cons c cs)
  then have "\<not> startsWith (c # cs) p"
    by (cases p) auto
  with Cons show ?case by simp
qed

lemma slice_inner: "slice (c # s @ [d]) 1 (- 1) = s"
  by (simp add: slice_def sliceIndex_def)



lemma nth_last: "xs \<noteq> [] \<Longrightarrow> xs ! (length xs - 1) = last xs"
  by (simp add: last_conv_nth)

lemma trim_quoted: "trim (dquote # V @ [dquote]) = dquote # V @ [dquote]"
  using trimEnd_nonws [OF dquote_nonws, of "dquote # V"]
  by (simp add: trim_def trimStart_nonws dquote_nonws)

lemma trimEnd_append_nonws:
  "\<not> isWhiteSpace c \<Longrightarrow> trimEnd (x @ c # y) = x @ c # trimEnd y"
  by (simp add: trimEnd_def dropWhile_append)

lemma trimEnd_prefix: "\<exists>t. s = trimEnd s @ t"
proof -
  have "s = rev (takeWhile isWhiteSpace (rev s) @ dropWhile isWhiteSpace (rev s))"
    by (simp only: takeWhile_dropWhile_id rev_rev_ident)
  also have "\<dots> = trimEnd s @ rev (takeWhile isWhiteSpace (rev s))"
    by (simp only: rev_append trimEnd_def)
  finally show ?thesis ..
qed

lemma trimEnd_Cons_cases: "trimEnd (c # w) = [] \<or> (\<exists>w'. trimEnd (c # w) = c # w')"
proof (cases "trimEnd (c # w)")
  case Nil
  then show ?thesis by simp
next
  case (Cons a as)
  obtain t where "c # w = trimEnd (c # w) @ t" using trimEnd_prefix by blast
  with Cons have "a = c" by simp
  with Cons show ?thesis by simp
qed

section \<open>The quoted-value parser\<close>

text \<open>
  Claim C7: for every string \<open>V\<close> without double quotes and without backslashes,
  \<^verbatim>\<open>parseQuotedValue\<close> applied to \<open>V\<close> between two double quotes returns exactly \<open>V\<close>.
\<close>

theorem parseQuotedValue_roundtrip:
  assumes "dquote \<notin> set V" and "backslash \<notin> set V"
  shows "parseQuotedValue (dquote # V @ [dquote]) = Some V"
proof -
  let ?q = "dquote # V @ [dquote]"
  have r: "replaceAll V [backslash, dquote] [dquote] = V"
    using assms(2) by (simp add: replaceAll_absent)
  have l: "?q ! (length ?q - 1) = dquote"
    using nth_last [of ?q] by simp
  have f: "?q ! 0 = dquote" by simp
  have n: "\<not> length ?q < 2" by simp
  have s: "slice ?q 1 (- 1) = V" by (rule slice_inner)
  show ?thesis
    by (simp only: parseQuotedValue_def trim_quoted Let_def n f l r s if_True if_False simp_thms)
qed

text \<open>The round trip of C7 at the key \<^verbatim>\<open>test-key\<close> of the test suite.\<close>

theorem parseQuotedValue_roundtrip_witness:
  \<open>dquote \<notin> set (js ''test-key'') \<and> backslash \<notin> set (js ''test-key'')
   \<and> parseQuotedValue (js ''"test-key"'') = Some (js ''test-key'')\<close>
proof -
  have h1: "dquote \<notin> set (js ''test-key'')" by (simp add: string_defs)
  have h2: "backslash \<notin> set (js ''test-key'')" by (simp add: string_defs)
  have e: \<open>js ''"test-key"'' = dquote # js ''test-key'' @ [dquote]\<close> by (simp add: string_defs)
  show ?thesis
    using h1 h2 parseQuotedValue_roundtrip [OF h1 h2] unfolding e by simp
qed

text \<open>
  Claim C4 says that a one-character bare word such as \<^verbatim>\<open>a\<close> is returned as it is. The
  source returns \<^verbatim>\<open>null\<close> for every trimmed token shorter than two characters
  (\<^verbatim>\<open>if (value.length < 2) return null\<close>), before it looks at quotes at all.
\<close>

theorem parseQuotedValue_single_char_counterexample:
  "length (js ''a'') = 1 \<and> js ''a'' \<noteq> [dquote] \<and> js ''a'' \<noteq> [squote]
   \<and> parseQuotedValue (js ''a'') = None"
  by (simp add: parseQuotedValue_def string_defs)

text \<open>
  Claim C4, amended: \<^verbatim>\<open>parseQuotedValue\<close> trims its argument and returns \<^verbatim>\<open>null\<close> whenever
  the trimmed token has fewer than two characters, bare words included; a trimmed token of
  at least two characters that is not enclosed in a matching pair of double or single
  quotes is returned verbatim.
\<close>

theorem parseQuotedValue_short_or_bare:
  "(length (trim v) < 2 \<longrightarrow> parseQuotedValue v = None) \<and>
   (2 \<le> length (trim v)
      \<and> \<not> (hd (trim v) = dquote \<and> last (trim v) = dquote)
      \<and> \<not> (hd (trim v) = squote \<and> last (trim v) = squote)
    \<longrightarrow> parseQuotedValue v = Some (trim v))"
proof (intro conjI impI)
  assume "length (trim v) < 2"
  then show "parseQuotedValue v = None"
    by (simp add: parseQuotedValue_def Let_def)
next
  assume a: "2 \<le> length (trim v)
      \<and> \<not> (hd (trim v) = dquote \<and> last (trim v) = dquote)
      \<and> \<not> (hd (trim v) = squote \<and> last (trim v) = squote)"
  then have ne: "trim v \<noteq> []" by auto
  have f: "trim v ! 0 = hd (trim v)" using ne by (simp add: hd_conv_nth)
  have l: "trim v ! (length (trim v) - 1) = last (trim v)" using ne by (rule nth_last)
  from a have n: "\<not> length (trim v) < 2" by simp
  show "parseQuotedValue v = Some (trim v)"
    unfolding parseQuotedValue_def Let_def f l using a n by auto
qed

text \<open>Both cases of the amended C4: the token \<^verbatim>\<open>a\<close>, and \<^verbatim>\<open>test-key\<close> between spaces.\<close>

theorem parseQuotedValue_short_or_bare_witness:
  "length (trim (js ''a'')) < 2 \<and> parseQuotedValue (js ''a'') = None
   \<and> 2 \<le> length (trim (js '' test-key ''))
   \<and> \<not> (hd (trim (js '' test-key '')) = dquote \<and> last (trim (js '' test-key '')) = dquote)
   \<and> \<not> (hd (trim (js '' test-key '')) = squote \<and> last (trim (js '' test-key '')) = squote)
   \<and> parseQuotedValue (js '' test-key '') = Some (js ''test-key'')"
proof -
  have t: "trim (js '' test-key '') = js ''test-key''"
    by (simp add: string_defs)
  have h1: "length (trim (js ''a'')) < 2"
    by (simp add: string_defs)
  have h2: "2 \<le> length (trim (js '' test-key ''))
      \<and> \<not> (hd (trim (js '' test-key '')) = dquote \<and> last (trim (js '' test-key '')) = dquote)
      \<and> \<not> (hd (trim (js '' test-key '')) = squote \<and> last (trim (js '' test-key '')) = squote)"
    unfolding t by (simp add: string_defs)
  from parseQuotedValue_short_or_bare [of "js ''a''"] h1
  have c1: "parseQuotedValue (js ''a'') = None" by blast
  from parseQuotedValue_short_or_bare [of "js '' test-key ''"] h2
  have c2: "parseQuotedValue (js '' test-key '') = Some (js ''test-key'')"
    unfolding t by blast
  from h1 h2 c1 c2 show ?thesis by blast
qed

section \<open>The block codec\<close>

lemma upsertBlock_form: "\<exists>x. upsertBlock content block shell = trimEnd x @ [newline]"
  unfolding upsertBlock_def Let_def by (cases "getBlockMarkers shell") auto

text \<open>
  Claim C9: for every content, block and shell, the result of \<^verbatim>\<open>upsertBlock\<close> is not
  empty, its last character is the newline, and the character before it, if there is one,
  is not whitespace.
\<close>

theorem upsertBlock_trailing_newline:
  "upsertBlock content block shell \<noteq> []
   \<and> last (upsertBlock content block shell) = newline
   \<and> (butlast (upsertBlock content block shell) \<noteq> []
        \<longrightarrow> \<not> isWhiteSpace (last (butlast (upsertBlock content block shell))))"
proof -
  obtain x where x: "upsertBlock content block shell = trimEnd x @ [newline]"
    using upsertBlock_form by blast
  show ?thesis
    unfolding x using trimEnd_last [of x] by auto
qed

text \<open>C9 at a content and a block that both end in blanks.\<close>

theorem upsertBlock_trailing_newline_witness:
  "butlast (upsertBlock (js ''a  '') (js ''b '') Bash) \<noteq> []
   \<and> upsertBlock (js ''a  '') (js ''b '') Bash \<noteq> []
   \<and> last (upsertBlock (js ''a  '') (js ''b '') Bash) = newline
   \<and> \<not> isWhiteSpace (last (butlast (upsertBlock (js ''a  '') (js ''b '') Bash)))"
proof -
  have h: "butlast (upsertBlock (js ''a  '') (js ''b '') Bash) \<noteq> []"
    by code_simp
  from h upsertBlock_trailing_newline [of "js ''a  ''" "js ''b ''" Bash] show ?thesis
    by blast
qed

text \<open>
  Claim C1: \<open>upsertBlock (upsertBlock C B) B = upsertBlock C B\<close> for every content \<open>C\<close> and
  rendered block \<open>B\<close>, also when the content holds only one of the two markers. The code
  does not achieve this: with a content that is just the start marker, the first call
  appends the block, since the end marker is missing; the second call then finds both
  markers, takes the stray start marker as the beginning of the block, and deletes
  everything from there to the end of the appended block.
\<close>

theorem upsertBlock_orphan_start_not_idempotent:
  "upsertBlock BLOCK_START_UNIX (renderBlock (js ''k'') Zsh) Zsh
     = BLOCK_START_UNIX @ [newline, newline] @ renderBlock (js ''k'') Zsh
   \<and> upsertBlock (upsertBlock BLOCK_START_UNIX (renderBlock (js ''k'') Zsh) Zsh)
        (renderBlock (js ''k'') Zsh) Zsh
     = [newline, newline] @ renderBlock (js ''k'') Zsh
   \<and> upsertBlock (upsertBlock BLOCK_START_UNIX (renderBlock (js ''k'') Zsh) Zsh)
        (renderBlock (js ''k'') Zsh) Zsh
     \<noteq> upsertBlock BLOCK_START_UNIX (renderBlock (js ''k'') Zsh) Zsh"
  by code_simp

lemma renderBlock_shape:
  "\<exists>m. renderBlock k shell = m @ [0x64, newline]"
  by (simp add: renderBlock_def BLOCK_END_UNIX_def BLOCK_END_POWERSHELL_def js_def)

lemma d_nonws: "\<not> isWhiteSpace 0x64"
  by (simp add: isWhiteSpace_def)

lemma trimEnd_block_tail:
  "\<exists>post. trimEnd (x @ (m @ [0x64, newline]) @ w) @ [newline] = x @ (m @ [0x64, newline]) @ post"
proof -
  have e: "trimEnd (x @ (m @ [0x64, newline]) @ w) = (x @ m) @ 0x64 # trimEnd (newline # w)"
    using trimEnd_append_nonws [OF d_nonws, of "x @ m" "newline # w"] by simp
  from trimEnd_Cons_cases [of newline w] show ?thesis
  proof
    assume "trimEnd (newline # w) = []"
    with e show ?thesis by simp
  next
    assume "\<exists>w'. trimEnd (newline # w) = newline # w'"
    then obtain w' where "trimEnd (newline # w) = newline # w'" by blast
    with e show ?thesis by simp
  qed
qed

lemma upsertBlock_keeps_block:
  "\<exists>pre post. upsertBlock content (m @ [0x64, newline]) shell = pre @ (m @ [0x64, newline]) @ post"
proof -
  obtain s e where se: "getBlockMarkers shell = (s, e)" by (cases "getBlockMarkers shell")
  let ?b = "trimEnd (slice content 0 (indexOf content s 0))"
  let ?a = "trimStart (sliceFrom content (indexOf content e (indexOf content s 0) + int (length e)))"
  let ?T = "trimEnd ((?b @ [newline, newline]) @ (m @ [0x64, newline]) @ newline # ?a) @ [newline]"
  let ?F = "trimEnd ((trimEnd content @ [newline, newline]) @ (m @ [0x64, newline]) @ []) @ [newline]"
  have u: "upsertBlock content (m @ [0x64, newline]) shell =
      (if includes_str content s \<and> includes_str content e then ?T else ?F)"
    by (simp add: upsertBlock_def se Let_def)
  show ?thesis
  proof (cases "includes_str content s \<and> includes_str content e")
    case True
    from trimEnd_block_tail [of "?b @ [newline, newline]" m "newline # ?a"]
    obtain post where p: "?T = (?b @ [newline, newline]) @ (m @ [0x64, newline]) @ post" by blast
    have "upsertBlock content (m @ [0x64, newline]) shell = ?T"
      by (simp only: u if_P [OF True])
    with p have "upsertBlock content (m @ [0x64, newline]) shell
        = (?b @ [newline, newline]) @ (m @ [0x64, newline]) @ post"
      by (rule back_subst [where P = "\<lambda>x. upsertBlock content (m @ [0x64, newline]) shell = x", rotated])
    then show ?thesis by blast
  next
    case False
    from trimEnd_block_tail [of "trimEnd content @ [newline, newline]" m "[]"]
    obtain post where p: "?F = (trimEnd content @ [newline, newline]) @ (m @ [0x64, newline]) @ post"
      by blast
    have "upsertBlock content (m @ [0x64, newline]) shell = ?F"
      by (simp only: u if_not_P [OF False])
    with p have "upsertBlock content (m @ [0x64, newline]) shell
        = (trimEnd content @ [newline, newline]) @ (m @ [0x64, newline]) @ post"
      by (rule back_subst [where P = "\<lambda>x. upsertBlock content (m @ [0x64, newline]) shell = x", rotated])
    then show ?thesis by blast
  qed
qed

lemma upsertBlock_contains_block:
  "\<exists>pre post. upsertBlock content (renderBlock k shell) shell = pre @ renderBlock k shell @ post"
proof -
  obtain m where m: "renderBlock k shell = m @ [0x64, newline]"
    using renderBlock_shape by blast
  show ?thesis unfolding m by (rule upsertBlock_keeps_block)
qed

subsection \<open>Where the upsert is idempotent\<close>

text \<open>
  For a key that does not contain the end marker, a start marker without an end marker is
  the only shape of content that breaks the fixed point: whenever the content holds the
  end marker if it holds the start marker, a second upsert of the same block changes
  nothing. The result of the first upsert is some \<open>X\<close> without start marker, a blank line,
  the block, and possibly a blank line and trimmed text \<open>A\<close>; the second upsert finds the
  first start marker at the beginning of that block and the first end marker at its end.
\<close>

lemma indexOfAux_first:
  "i \<le> length s \<Longrightarrow> startsWith (drop i s) p \<Longrightarrow> (\<forall>j<i. \<not> startsWith (drop j s) p) \<Longrightarrow>
   indexOfAux s p k = int (k + i)"
proof (induction s arbitrary: i k)
  case Nil
  then show ?case by (cases p) auto
next
  case (Cons c cs)
  show ?case
  proof (cases i)
    case 0
    with Cons.prems show ?thesis by simp
  next
    case (Suc i')
    with Cons.prems have n: "\<not> startsWith (c # cs) p" by force
    from Suc Cons.prems have "i' \<le> length cs" "startsWith (drop i' cs) p" by simp_all
    moreover have "\<forall>j<i'. \<not> startsWith (drop j cs) p"
    proof (intro allI impI)
      fix j assume "j < i'"
      with Suc have "Suc j < i" by simp
      with Cons.prems(3) have "\<not> startsWith (drop (Suc j) (c # cs)) p" by blast
      then show "\<not> startsWith (drop j cs) p" by simp
    qed
    ultimately have "indexOfAux cs p (Suc k) = int (Suc k + i')" by (rule Cons.IH)
    with n Suc show ?thesis by simp
  qed
qed

lemma indexOfAux_spec:
  "indexOfAux s p k \<noteq> - 1 \<Longrightarrow>
   \<exists>i. indexOfAux s p k = int (k + i) \<and> i \<le> length s \<and> startsWith (drop i s) p
       \<and> (\<forall>j<i. \<not> startsWith (drop j s) p)"
proof (induction s arbitrary: k)
  case Nil
  then show ?case by (auto split: if_splits)
next
  case (Cons c cs)
  show ?case
  proof (cases "startsWith (c # cs) p")
    case True
    then have "indexOfAux (c # cs) p k = int (k + 0) \<and> 0 \<le> length (c # cs)
        \<and> startsWith (drop 0 (c # cs)) p \<and> (\<forall>j<0. \<not> startsWith (drop j (c # cs)) p)"
      by simp
    then show ?thesis by blast
  next
    case False
    with Cons.prems have "indexOfAux cs p (Suc k) \<noteq> - 1" by simp
    from Cons.IH [OF this] obtain i where i: "indexOfAux cs p (Suc k) = int (Suc k + i)"
      "i \<le> length cs" "startsWith (drop i cs) p" "\<forall>j<i. \<not> startsWith (drop j cs) p" by blast
    have "\<forall>j<Suc i. \<not> startsWith (drop j (c # cs)) p"
    proof (intro allI impI)
      fix j assume j: "j < Suc i"
      show "\<not> startsWith (drop j (c # cs)) p"
      proof (cases j)
        case 0
        with False show ?thesis by simp
      next
        case (Suc j')
        with j i(4) show ?thesis by simp
      qed
    qed
    with i False have "indexOfAux (c # cs) p k = int (k + Suc i) \<and> Suc i \<le> length (c # cs)
        \<and> startsWith (drop (Suc i) (c # cs)) p \<and> (\<forall>j<Suc i. \<not> startsWith (drop j (c # cs)) p)"
      by simp
    then show ?thesis by blast
  qed
qed

lemma indexOfAux_absent:
  "(\<forall>j\<le>length s. \<not> startsWith (drop j s) p) \<Longrightarrow> indexOfAux s p k = - 1"
proof (rule ccontr)
  assume a: "\<forall>j\<le>length s. \<not> startsWith (drop j s) p" and "indexOfAux s p k \<noteq> - 1"
  from indexOfAux_spec [OF this(2)] a show False by blast
qed

lemma includes_iff: "includes_str s p \<longleftrightarrow> (\<exists>j\<le>length s. startsWith (drop j s) p)"
proof
  assume "includes_str s p"
  then have "indexOfAux s p 0 \<noteq> - 1" by (simp add: includes_str_def indexOf_def)
  from indexOfAux_spec [OF this] show "\<exists>j\<le>length s. startsWith (drop j s) p" by blast
next
  assume "\<exists>j\<le>length s. startsWith (drop j s) p"
  then have "\<exists>j. j \<le> length s \<and> startsWith (drop j s) p" by blast
  then obtain i where i: "i \<le> length s \<and> startsWith (drop i s) p"
    and m: "\<forall>j<i. \<not> (j \<le> length s \<and> startsWith (drop j s) p)"
    using exists_least_iff [of "\<lambda>j. j \<le> length s \<and> startsWith (drop j s) p"] by blast
  from i m have "\<forall>j<i. \<not> startsWith (drop j s) p" by auto
  with i have "indexOfAux s p 0 = int (0 + i)" by (intro indexOfAux_first) simp_all
  then have "indexOfAux s p 0 \<noteq> - 1" by simp
  then show "includes_str s p" by (simp add: includes_str_def indexOf_def)
qed

lemma startsWith_append: "startsWith a p \<Longrightarrow> startsWith (a @ b) p"
  by (auto simp: startsWith_iff)

lemma startsWith_straddle:
  assumes "startsWith (a @ c # b) p" and "c \<notin> set p"
  shows "startsWith a p"
proof -
  from assms(1) obtain r where "a @ c # b = p @ r" by (auto simp: startsWith_iff)
  then consider us where "a = p @ us" | us where "a @ us = p" "c # b = us @ r"
    by (auto simp: append_eq_append_conv2)
  then show ?thesis
  proof cases
    case 1
    then show ?thesis by (auto simp: startsWith_iff)
  next
    case 2
    show ?thesis
    proof (cases us)
      case Nil
      with 2 show ?thesis by (auto simp: startsWith_iff)
    next
      case (Cons u us')
      with 2 have "c \<in> set p" by auto
      with assms(2) show ?thesis by simp
    qed
  qed
qed

lemma occurrence_before_separator:
  "j \<le> length a \<Longrightarrow> c \<notin> set p \<Longrightarrow> startsWith (drop j (a @ c # b)) p \<Longrightarrow>
   startsWith (drop j a) p"
  using startsWith_straddle [of "drop j a" c b p] by simp

lemma absent_in_prefix:
  assumes "\<not> includes_str (x @ t) p"
  shows "\<not> includes_str x p"
proof
  assume "includes_str x p"
  then obtain j where "j \<le> length x" "startsWith (drop j x) p" by (auto simp: includes_iff)
  then have "j \<le> length (x @ t)" "startsWith (drop j (x @ t)) p"
    by (simp_all add: startsWith_append)
  with assms show False by (auto simp: includes_iff)
qed

lemma trimEnd_idem: "trimEnd (trimEnd s) = trimEnd s"
proof (cases "dropWhile isWhiteSpace (rev s)")
  case Nil
  then show ?thesis by (simp add: trimEnd_def)
next
  case (Cons c cs)
  then have "\<not> isWhiteSpace c" using hd_dropWhile [of isWhiteSpace "rev s"] by simp
  with Cons show ?thesis by (simp add: trimEnd_def)
qed

lemma trimEnd_blank: "isWhiteSpace c \<Longrightarrow> trimEnd (s @ [c]) = trimEnd s"
  by (simp add: trimEnd_def)

lemma trimStart_hd: "trimStart s = [] \<or> \<not> isWhiteSpace (hd (trimStart s))"
  using hd_dropWhile [of isWhiteSpace s] by (auto simp: trimStart_def)

lemma newline_ws: "isWhiteSpace newline"
  by (simp add: isWhiteSpace_def newline_def)

lemma trimEnd_nonempty:
  assumes "a \<noteq> []" and "\<not> isWhiteSpace (hd a)"
  shows "\<exists>t. trimEnd a = hd a # t \<and> \<not> isWhiteSpace (last (hd a # t))"
    and "trimEnd (x @ a) = x @ trimEnd a"
proof -
  from assms(1) obtain b where a: "a = hd a # b" by (cases a) auto
  have e: "trimEnd (y @ hd a # b) = y @ hd a # trimEnd b" for y
    using assms(2) by (rule trimEnd_append_nonws)
  from e [of "[]"] have t: "trimEnd (hd a # b) = hd a # trimEnd b" by simp
  have "\<not> isWhiteSpace (last (hd a # trimEnd b))"
    using trimEnd_last [of b] assms(2) by auto
  with t show "\<exists>t. trimEnd a = hd a # t \<and> \<not> isWhiteSpace (last (hd a # t))"
    using a by metis
  from e [of x] t show "trimEnd (x @ a) = x @ trimEnd a"
    using a by metis
qed

lemma markers_all: "getBlockMarkers shell = (BLOCK_START_UNIX, BLOCK_END_UNIX)"
  by (simp add: getBlockMarkers_def BLOCK_START_POWERSHELL_def BLOCK_END_POWERSHELL_def
      BLOCK_START_UNIX_def BLOCK_END_UNIX_def)

lemma start_marker_facts:
  "newline \<notin> set BLOCK_START_UNIX" "\<exists>m. BLOCK_START_UNIX = hash # m"
  by (simp_all add: BLOCK_START_UNIX_def js_def newline_def hash_def)

lemma start_without_end: "\<not> includes_str BLOCK_START_UNIX BLOCK_END_UNIX"
  by code_simp

lemma end_marker_facts:
  "newline \<notin> set BLOCK_END_UNIX" "dquote \<notin> set BLOCK_END_UNIX"
  "\<exists>m. BLOCK_END_UNIX = hash # m" "\<exists>m. BLOCK_END_UNIX = m @ [0x64]"
  by (simp_all add: BLOCK_END_UNIX_def js_def newline_def dquote_def hash_def)

lemma renderBlock_parts:
  "\<exists>pre. hash \<notin> set pre \<and>
     renderBlock k shell =
       BLOCK_START_UNIX @ newline # (pre @ k @ [dquote]) @ newline # BLOCK_END_UNIX @ [newline]"
proof (cases "shell = Powershell \<or> shell = PowershellCore")
  case True
  have \<open>hash \<notin> set (js ''$env:Z_AI_API_KEY="'')\<close> by (simp add: js_def hash_def)
  moreover from True have \<open>renderBlock k shell =
       BLOCK_START_UNIX @ newline # (js ''$env:Z_AI_API_KEY="'' @ k @ [dquote]) @ newline
         # BLOCK_END_UNIX @ [newline]\<close>
    by (simp add: renderBlock_def BLOCK_START_POWERSHELL_def BLOCK_END_POWERSHELL_def
        BLOCK_START_UNIX_def BLOCK_END_UNIX_def js_def dquote_def)
  ultimately show ?thesis by blast
next
  case False
  have \<open>hash \<notin> set (js ''export Z_AI_API_KEY="'')\<close> by (simp add: js_def hash_def)
  moreover from False have \<open>renderBlock k shell =
       BLOCK_START_UNIX @ newline # (js ''export Z_AI_API_KEY="'' @ k @ [dquote]) @ newline
         # BLOCK_END_UNIX @ [newline]\<close>
    by (simp add: renderBlock_def js_def dquote_def)
  ultimately show ?thesis by blast
qed

lemma drop_length_append: "drop (length a) (a @ b) = b"
  by simp

lemma startsWith_hd: "startsWith (c # r) p \<Longrightarrow> p = h # m \<Longrightarrow> c = h"
  by auto

lemma drop_past_separator: "drop (length a + 1 + n) (a @ c # b) = drop n b"
  by simp

lemma no_end_in_line:
  assumes "hash \<notin> set pre" and "\<not> includes_str k BLOCK_END_UNIX"
    and "j \<le> length (pre @ k @ [dquote])"
  shows "\<not> startsWith (drop j (pre @ k @ [dquote])) BLOCK_END_UNIX"
proof
  assume s: "startsWith (drop j (pre @ k @ [dquote])) BLOCK_END_UNIX"
  obtain m where m: "BLOCK_END_UNIX = hash # m" using end_marker_facts(3) by blast
  show False
  proof (cases "j < length pre")
    case True
    then obtain c cs where d: "drop j pre = c # cs" by (cases "drop j pre") auto
    then have "c \<in> set pre" by (metis in_set_dropD list.set_intros(1))
    moreover from s d True have "startsWith (c # cs @ k @ [dquote]) BLOCK_END_UNIX" by simp
    from startsWith_hd [OF this m] have "c = hash" .
    ultimately show False using assms(1) by simp
  next
    case False
    then have d: "drop j (pre @ k @ [dquote]) = drop (j - length pre) (k @ [dquote])" by simp
    show False
    proof (cases "j - length pre \<le> length k")
      case True
      with s d have "startsWith (drop (j - length pre) k) BLOCK_END_UNIX"
        using occurrence_before_separator [of "j - length pre" k dquote BLOCK_END_UNIX "[]"]
          end_marker_facts(2) by simp
      with True assms(2) show False by (auto simp: includes_iff)
    next
      case False
      then have "drop (j - length pre) (k @ [dquote]) = []" by simp
      with s [unfolded m] d show False by simp
    qed
  qed
qed

lemma first_start_after_prefix:
  assumes "\<not> includes_str X BLOCK_START_UNIX"
  shows "indexOf (X @ newline # newline # BLOCK_START_UNIX @ R) BLOCK_START_UNIX 0
         = int (length X + 2)"
proof -
  let ?Y = "X @ newline # newline # BLOCK_START_UNIX @ R"
  obtain m where m: "BLOCK_START_UNIX = hash # m" using start_marker_facts(2) by blast
  have a: "length X + 2 \<le> length ?Y" by simp
  have b: "startsWith (drop (length X + 2) ?Y) BLOCK_START_UNIX"
    by (simp add: startsWith_iff)
  have c: "\<forall>j<length X + 2. \<not> startsWith (drop j ?Y) BLOCK_START_UNIX"
  proof (intro allI impI notI)
    fix j assume j: "j < length X + 2" and s: "startsWith (drop j ?Y) BLOCK_START_UNIX"
    show False
    proof (cases "j \<le> length X")
      case True
      from occurrence_before_separator [OF True start_marker_facts(1) s]
      have "startsWith (drop j X) BLOCK_START_UNIX" .
      with True assms show False by (auto simp: includes_iff)
    next
      case False
      with j have e: "j = length X + 1 + 0" by simp
      have "drop j ?Y = newline # BLOCK_START_UNIX @ R"
        unfolding e by (simp only: drop_past_separator drop_0)
      with s have "startsWith (newline # BLOCK_START_UNIX @ R) BLOCK_START_UNIX" by simp
      from startsWith_hd [OF this m] show False by (simp add: newline_def hash_def)
    qed
  qed
  from indexOfAux_first [OF a b c, of 0] show ?thesis by (simp add: indexOf_def)
qed

lemma first_end_in_block:
  assumes "hash \<notin> set pre" and "\<not> includes_str k BLOCK_END_UNIX"
  shows "indexOfAux (BLOCK_START_UNIX @ newline # (pre @ k @ [dquote]) @ newline # BLOCK_END_UNIX @ R)
           BLOCK_END_UNIX n
         = int (n + (length BLOCK_START_UNIX + 1 + length (pre @ k @ [dquote]) + 1))"
proof -
  let ?L = "pre @ k @ [dquote]"
  let ?Z = "BLOCK_START_UNIX @ newline # ?L @ newline # BLOCK_END_UNIX @ R"
  let ?o = "length BLOCK_START_UNIX + 1 + length ?L + 1"
  have a: "?o \<le> length ?Z" by simp
  have z: "?Z = (BLOCK_START_UNIX @ newline # ?L @ [newline]) @ BLOCK_END_UNIX @ R" by simp
  have o: "?o = length (BLOCK_START_UNIX @ newline # ?L @ [newline])" by simp
  have "drop ?o ?Z = BLOCK_END_UNIX @ R" unfolding z o by (rule drop_length_append)
  then have b: "startsWith (drop ?o ?Z) BLOCK_END_UNIX" by (simp add: startsWith_iff)
  have c: "\<forall>j<?o. \<not> startsWith (drop j ?Z) BLOCK_END_UNIX"
  proof (intro allI impI notI)
    fix j assume j: "j < ?o" and s: "startsWith (drop j ?Z) BLOCK_END_UNIX"
    show False
    proof (cases "j \<le> length BLOCK_START_UNIX")
      case True
      from occurrence_before_separator [OF True end_marker_facts(1) s]
      have "startsWith (drop j BLOCK_START_UNIX) BLOCK_END_UNIX" .
      with True start_without_end show False by (auto simp: includes_iff)
    next
      case False
      define j' where "j' = j - (length BLOCK_START_UNIX + 1)"
      from False j have j': "j = length BLOCK_START_UNIX + 1 + j'" "j' \<le> length ?L"
        by (simp_all add: j'_def)
      have "drop j ?Z = drop j' (?L @ newline # BLOCK_END_UNIX @ R)"
        unfolding j'(1) by (rule drop_past_separator)
      with s have "startsWith (drop j' (?L @ newline # BLOCK_END_UNIX @ R)) BLOCK_END_UNIX" by simp
      from occurrence_before_separator [OF j'(2) end_marker_facts(1) this]
      have "startsWith (drop j' ?L) BLOCK_END_UNIX" .
      with no_end_in_line [OF assms j'(2)] show False by simp
    qed
  qed
  from indexOfAux_first [OF a b c, of n] show ?thesis by simp
qed

lemma trimEnd_two_newlines: "trimEnd (X @ [newline, newline]) = trimEnd X"
  using trimEnd_blank [OF newline_ws, of "X @ [newline]"] trimEnd_blank [OF newline_ws, of X]
  by simp

lemma slice_take: "n \<le> length s \<Longrightarrow> slice s 0 (int n) = take n s"
  by (simp add: slice_def sliceIndex_def)

lemma sliceFrom_drop: "sliceFrom s (int n) = drop n s"
  by (simp add: sliceFrom_def sliceIndex_def min_def)

lemma take_length_append: "take (length a) (a @ b) = a"
  by simp

lemma upsertBlock_fixpoint:
  assumes pre: "hash \<notin> set pre" and key: "\<not> includes_str k BLOCK_END_UNIX"
    and B: "B = BLOCK_START_UNIX @ newline # (pre @ k @ [dquote]) @ newline # BLOCK_END_UNIX @ [newline]"
    and X: "trimEnd X = X" "\<not> includes_str X BLOCK_START_UNIX"
    and T: "T = [] \<or> (\<exists>A. T = newline # A @ [newline] \<and> A \<noteq> [] \<and> \<not> isWhiteSpace (hd A)
                          \<and> \<not> isWhiteSpace (last A))"
  shows "upsertBlock (X @ newline # newline # B @ T) B shell = X @ newline # newline # B @ T"
proof -
  let ?S = BLOCK_START_UNIX and ?E = BLOCK_END_UNIX
  let ?L = "pre @ k @ [dquote]"
  let ?Y = "X @ newline # newline # B @ T"
  let ?o = "length ?S + 1 + length ?L + 1"
  have Y1: "?Y = X @ newline # newline # ?S @ (newline # ?L @ newline # ?E @ newline # T)"
    by (simp add: B)
  have Y2: "?Y = (X @ [newline, newline]) @ ?S @ newline # ?L @ newline # ?E @ (newline # T)"
    by (simp add: B)
  have Y3: "?Y = (X @ newline # newline # ?S @ newline # ?L @ newline # ?E) @ newline # T"
    by (simp add: B)
  have si: "indexOf ?Y ?S 0 = int (length X + 2)"
    unfolding Y1 using X(2) by (rule first_start_after_prefix)
  have inc1: "includes_str ?Y ?S" by (simp add: includes_str_def si)
  have d2: "drop (length X + 2) ?Y = ?S @ newline # ?L @ newline # ?E @ (newline # T)"
    using drop_length_append [of "X @ [newline, newline]"] unfolding Y2 by simp
  have l2: "nat (min (max (int (length X + 2)) 0) (int (length ?Y))) = length X + 2"
    by simp
  have ei: "indexOf ?Y ?E (int (length X + 2)) = int (length X + 2 + ?o)"
    unfolding indexOf_def l2 Let_def d2 using pre key by (rule first_end_in_block)
  have l3: "length X + 2 + ?o + length ?E
      = length (X @ newline # newline # ?S @ newline # ?L @ newline # ?E)" by simp
  have d3: "drop (length X + 2 + ?o + length ?E) ?Y = newline # T"
    unfolding l3 Y3 by (rule drop_length_append)
  have "startsWith (drop (length X + 2 + ?o) ?Y) ?E"
  proof -
    have "length X + 2 + ?o = length (X @ newline # newline # ?S @ newline # ?L @ [newline])"
      by simp
    moreover have "?Y = (X @ newline # newline # ?S @ newline # ?L @ [newline]) @ ?E @ newline # T"
      by (simp add: B)
    ultimately have "drop (length X + 2 + ?o) ?Y = ?E @ newline # T"
      using drop_length_append [of "X @ newline # newline # ?S @ newline # ?L @ [newline]"]
      by simp
    then show ?thesis by (simp add: startsWith_iff)
  qed
  moreover have "length X + 2 + ?o \<le> length ?Y" by (simp add: B)
  ultimately have inc2: "includes_str ?Y ?E" unfolding includes_iff by blast
  have before: "trimEnd (slice ?Y 0 (int (length X + 2))) = X"
  proof -
    have "length X + 2 \<le> length ?Y" by simp
    then have "slice ?Y 0 (int (length X + 2)) = take (length X + 2) ?Y"
      by (rule slice_take)
    also have "\<dots> = take (length (X @ [newline, newline])) ?Y" by simp
    also have "\<dots> = X @ [newline, newline]" unfolding Y2 by (rule take_length_append)
    finally show ?thesis using X(1) by (simp only: trimEnd_two_newlines)
  qed
  have after: "sliceFrom ?Y (int (length X + 2 + ?o) + int (length ?E)) = newline # T"
  proof -
    have "int (length X + 2 + ?o) + int (length ?E) = int (length X + 2 + ?o + length ?E)"
      by simp
    then show ?thesis using d3 by (simp only: sliceFrom_drop)
  qed
  have u: "upsertBlock ?Y B shell
      = trimEnd (X @ [newline, newline] @ B @ [newline] @ trimStart (newline # T)) @ [newline]"
    unfolding upsertBlock_def markers_all Let_def prod.case
    by (simp only: inc1 inc2 si ei before after simp_thms if_True)
  obtain m where m: "?E = m @ [0x64]" using end_marker_facts(4) by blast
  define M where "M = X @ newline # newline # ?S @ newline # ?L @ newline # m"
  have BM: "X @ newline # newline # B = M @ [0x64, newline]"
    by (simp add: B M_def m)
  from T show ?thesis
  proof
    assume t: "T = []"
    have "X @ [newline, newline] @ B @ [newline] @ trimStart (newline # T)
        = (X @ newline # newline # B) @ [newline]"
      by (simp add: t trimStart_def newline_ws)
    also have "\<dots> = (M @ [0x64]) @ [newline, newline]" unfolding BM by simp
    finally have "trimEnd (X @ [newline, newline] @ B @ [newline] @ trimStart (newline # T))
        = trimEnd ((M @ [0x64]) @ [newline, newline])" by (rule arg_cong)
    also have "\<dots> = M @ [0x64]"
      unfolding trimEnd_two_newlines using d_nonws by (rule trimEnd_nonws)
    finally have r: "upsertBlock ?Y B shell = (M @ [0x64]) @ [newline]"
      unfolding u by (rule arg_cong)
    have "?Y = (X @ newline # newline # B) @ []" by (simp add: t)
    also have "\<dots> = (M @ [0x64]) @ [newline]" unfolding BM by simp
    finally show ?thesis using r by (rule ssubst)
  next
    assume "\<exists>A. T = newline # A @ [newline] \<and> A \<noteq> [] \<and> \<not> isWhiteSpace (hd A)
                          \<and> \<not> isWhiteSpace (last A)"
    then obtain A where t: "T = newline # A @ [newline]" and A: "A \<noteq> []"
      "\<not> isWhiteSpace (hd A)" "\<not> isWhiteSpace (last A)" by blast
    from A(1,2) have ts: "trimStart (newline # T) = A @ [newline]"
      by (cases A) (simp_all add: t trimStart_def newline_ws)
    from A(1) have Al: "A = butlast A @ [last A]" by simp
    have "trimEnd (X @ [newline, newline] @ B @ [newline] @ trimStart (newline # T))
        = trimEnd ((X @ [newline, newline] @ B @ [newline] @ A) @ [newline])"
      by (simp add: ts)
    also have "\<dots> = trimEnd (X @ [newline, newline] @ B @ [newline] @ A)"
      using newline_ws by (rule trimEnd_blank)
    also have "\<dots> = trimEnd ((X @ [newline, newline] @ B @ [newline] @ butlast A) @ [last A])"
      using Al by (metis append.assoc)
    also have "\<dots> = (X @ [newline, newline] @ B @ [newline] @ butlast A) @ [last A]"
      using A(3) by (rule trimEnd_nonws)
    also have "\<dots> = X @ [newline, newline] @ B @ [newline] @ A"
      using Al by (metis append.assoc)
    finally show ?thesis unfolding u by (simp add: t)
  qed
qed

lemma trimEnd_after_block:
  "trimEnd (X @ [newline, newline] @ (M @ [0x64, newline])) = X @ [newline, newline] @ M @ [0x64]"
  "trimEnd (X @ [newline, newline] @ (M @ [0x64, newline]) @ [newline])
     = X @ [newline, newline] @ M @ [0x64]"
proof -
  have a: "trimEnd ((X @ [newline, newline] @ M) @ [0x64]) = (X @ [newline, newline] @ M) @ [0x64]"
    using d_nonws by (rule trimEnd_nonws)
  have "trimEnd (((X @ [newline, newline] @ M) @ [0x64]) @ [newline])
      = trimEnd ((X @ [newline, newline] @ M) @ [0x64])"
    using newline_ws by (rule trimEnd_blank)
  with a show "trimEnd (X @ [newline, newline] @ (M @ [0x64, newline]))
      = X @ [newline, newline] @ M @ [0x64]" by simp
  have "trimEnd (((X @ [newline, newline] @ M) @ [0x64]) @ [newline, newline])
      = trimEnd ((X @ [newline, newline] @ M) @ [0x64])"
    by (rule trimEnd_two_newlines)
  with a show "trimEnd (X @ [newline, newline] @ (M @ [0x64, newline]) @ [newline])
      = X @ [newline, newline] @ M @ [0x64]" by simp
qed

lemma no_start_before_first:
  assumes "indexOf content BLOCK_START_UNIX 0 \<noteq> - 1"
  shows "\<exists>i. indexOf content BLOCK_START_UNIX 0 = int i \<and> i \<le> length content
           \<and> \<not> includes_str (trimEnd (take i content)) BLOCK_START_UNIX"
proof -
  let ?S = BLOCK_START_UNIX
  from assms have "indexOfAux content ?S 0 \<noteq> - 1" by (simp add: indexOf_def)
  from indexOfAux_spec [OF this] obtain i where
    i: "indexOfAux content ?S 0 = int i" "i \<le> length content"
    and f: "\<forall>j<i. \<not> startsWith (drop j content) ?S" by auto
  obtain m where m: "?S = hash # m" using start_marker_facts(2) by blast
  have n: "\<not> includes_str (take i content) ?S"
  proof
    assume "includes_str (take i content) ?S"
    then obtain j where j: "j \<le> length (take i content)"
      "startsWith (drop j (take i content)) ?S" by (auto simp: includes_iff)
    from j(1) i(2) have ji: "j \<le> i" by simp
    show False
    proof (cases "j < i")
      case True
      from j(2) have "startsWith (drop j (take i content) @ drop i content) ?S"
        by (rule startsWith_append)
      moreover have "drop j (take i content @ drop i content)
          = drop j (take i content) @ drop i content"
        using ji i(2) by (simp del: append_take_drop_id)
      ultimately have "startsWith (drop j content) ?S" by simp
      with f True show False by blast
    next
      case False
      with ji have "drop j (take i content) = []" by simp
      with j(2) have "startsWith [] ?S" by simp
      then show False unfolding m by simp
    qed
  qed
  obtain t where t: "take i content = trimEnd (take i content) @ t"
    using trimEnd_prefix by blast
  from n have "\<not> includes_str (trimEnd (take i content) @ t) ?S"
    unfolding t [symmetric] .
  then have "\<not> includes_str (trimEnd (take i content)) ?S" by (rule absent_in_prefix)
  with i show ?thesis by (auto simp: indexOf_def)
qed

lemma upsertBlock_replace:
  assumes both: "includes_str content BLOCK_START_UNIX \<and> includes_str content BLOCK_END_UNIX"
    and i: "indexOf content BLOCK_START_UNIX 0 = int i" "i \<le> length content"
  shows "upsertBlock content B shell
      = trimEnd (trimEnd (take i content) @ [newline, newline] @ B @ [newline]
          @ trimStart (sliceFrom content (indexOf content BLOCK_END_UNIX (int i) + int (length BLOCK_END_UNIX)))) @ [newline]"
proof -
  from both have a: "includes_str content BLOCK_START_UNIX" and b: "includes_str content BLOCK_END_UNIX"
    by simp_all
  have s: "slice content 0 (int i) = take i content" using i(2) by (rule slice_take)
  show ?thesis
    unfolding upsertBlock_def markers_all Let_def prod.case
    by (simp only: a b i(1) s simp_thms if_True)
qed


lemma upsertBlock_shape:
  assumes c: "includes_str content BLOCK_START_UNIX \<longrightarrow> includes_str content BLOCK_END_UNIX"
  shows "\<exists>X T. upsertBlock content (M @ [0x64, newline]) shell
               = X @ newline # newline # (M @ [0x64, newline]) @ T
           \<and> trimEnd X = X \<and> \<not> includes_str X BLOCK_START_UNIX
           \<and> (T = [] \<or> (\<exists>A. T = newline # A @ [newline] \<and> A \<noteq> [] \<and> \<not> isWhiteSpace (hd A)
                          \<and> \<not> isWhiteSpace (last A)))"
proof (cases "includes_str content BLOCK_START_UNIX")
  case True
  with c have both: "includes_str content BLOCK_START_UNIX \<and> includes_str content BLOCK_END_UNIX"
    by simp
  let ?S = BLOCK_START_UNIX and ?E = BLOCK_END_UNIX
  let ?B = "M @ [0x64, newline]"
  from True obtain i where i: "indexOf content ?S 0 = int i" "i \<le> length content"
    and nx: "\<not> includes_str (trimEnd (take i content)) ?S"
    using no_start_before_first by (auto simp: includes_str_def)
  let ?X = "trimEnd (take i content)"
  let ?a = "trimStart (sliceFrom content (indexOf content ?E (int i) + int (length ?E)))"
  have u: "upsertBlock content ?B shell
      = trimEnd (?X @ [newline, newline] @ ?B @ [newline] @ ?a) @ [newline]"
    using both i by (rule upsertBlock_replace)
  have xx: "trimEnd ?X = ?X" by (rule trimEnd_idem)
  show ?thesis
  proof (cases "?a = []")
    case True
    have "upsertBlock content ?B shell = (?X @ [newline, newline] @ M @ [0x64]) @ [newline]"
      unfolding u True using trimEnd_after_block(2) [of ?X M] by simp
    then have "upsertBlock content ?B shell = ?X @ newline # newline # ?B @ []" by simp
    with xx nx show ?thesis by blast
  next
    case False
    with trimStart_hd have h: "\<not> isWhiteSpace (hd ?a)" by blast
    from trimEnd_nonempty(1) [OF False h] obtain t where
      t: "trimEnd ?a = hd ?a # t" "\<not> isWhiteSpace (last (hd ?a # t))" by blast
    have "trimEnd ((?X @ [newline, newline] @ ?B @ [newline]) @ ?a)
        = (?X @ [newline, newline] @ ?B @ [newline]) @ trimEnd ?a"
      using False h by (rule trimEnd_nonempty(2))
    then have "upsertBlock content ?B shell
        = ?X @ newline # newline # ?B @ (newline # (hd ?a # t) @ [newline])"
      unfolding u t(1) by simp
    moreover have "hd ?a # t \<noteq> []" "\<not> isWhiteSpace (hd (hd ?a # t))"
      using h by simp_all
    ultimately show ?thesis using xx nx t(2) by blast
  qed
next
  case False
  let ?X = "trimEnd content"
  let ?B = "M @ [0x64, newline]"
  from False have u: "upsertBlock content ?B shell
      = trimEnd (?X @ [newline, newline] @ ?B) @ [newline]"
    unfolding upsertBlock_def markers_all Let_def prod.case by simp
  have "upsertBlock content ?B shell = (?X @ [newline, newline] @ M @ [0x64]) @ [newline]"
    unfolding u using trimEnd_after_block(1) [of ?X M] by simp
  then have "upsertBlock content ?B shell = ?X @ newline # newline # ?B @ []" by simp
  moreover have "trimEnd ?X = ?X" by (rule trimEnd_idem)
  moreover have "\<not> includes_str ?X BLOCK_START_UNIX"
  proof -
    obtain t where t: "content = ?X @ t" using trimEnd_prefix by blast
    from False have "\<not> includes_str (?X @ t) BLOCK_START_UNIX" unfolding t [symmetric] .
    then show ?thesis by (rule absent_in_prefix)
  qed
  ultimately show ?thesis by blast
qed

text \<open>
  The upsert is idempotent for every shell, every key without the end marker and every
  content in which a start marker comes with an end marker (before or after it).
\<close>

lemma upsertBlock_idempotent_unless_orphan_start:
  assumes "\<not> includes_str key BLOCK_END_UNIX"
    and "includes_str content BLOCK_START_UNIX \<longrightarrow> includes_str content BLOCK_END_UNIX"
  shows "upsertBlock (upsertBlock content (renderBlock key shell) shell) (renderBlock key shell) shell
         = upsertBlock content (renderBlock key shell) shell"
proof -
  obtain pre where pre: "hash \<notin> set pre"
    and B: "renderBlock key shell =
       BLOCK_START_UNIX @ newline # (pre @ key @ [dquote]) @ newline # BLOCK_END_UNIX @ [newline]"
    using renderBlock_parts by blast
  obtain m where m: "BLOCK_END_UNIX = m @ [0x64]" using end_marker_facts(4) by blast
  define M where "M = BLOCK_START_UNIX @ newline # (pre @ key @ [dquote]) @ newline # m"
  have BM: "renderBlock key shell = M @ [0x64, newline]" by (simp add: B M_def m)
  from upsertBlock_shape [OF assms(2), of M shell] obtain X T where
    s: "upsertBlock content (renderBlock key shell) shell
          = X @ newline # newline # renderBlock key shell @ T"
    and X: "trimEnd X = X" "\<not> includes_str X BLOCK_START_UNIX"
    and T: "T = [] \<or> (\<exists>A. T = newline # A @ [newline] \<and> A \<noteq> [] \<and> \<not> isWhiteSpace (hd A)
                          \<and> \<not> isWhiteSpace (last A))"
    unfolding BM by blast
  show ?thesis unfolding s using pre assms(1) B X T by (rule upsertBlock_fixpoint)
qed

section \<open>The assignment scanner\<close>

text \<open>
  Claim C3: \<^verbatim>\<open>hasZaiKeyInProfile\<close> reports an effective assignment only for lines where,
  after the optional \<^verbatim>\<open>export \<close> or \<^verbatim>\<open>$env:\<close> prefix, the remainder is the variable name
  followed by \<^verbatim>\<open>=\<close>; a line that assigns a longer variable whose name merely starts with
  the target name, such as \<^verbatim>\<open>export Z_AI_API_KEY_BACKUP="v"\<close>, is not reported. The code does
  not achieve this: it tests \<^verbatim>\<open>startsWith('Z_AI_API_KEY')\<close> and then takes the first \<^verbatim>\<open>=\<close>
  anywhere in the remainder, with no check of where the name ends. The longer name is
  reported as an assignment of \<^verbatim>\<open>Z_AI_API_KEY\<close>, and the provisioner then skips a profile
  that does not set the variable, leaving it as it was.
\<close>

theorem hasZaiKeyInProfile_longer_name_reported:
  \<open>hasZaiKeyInProfile (js ''export Z_AI_API_KEY_BACKUP="v"'') Zsh
   \<and> fst (ensureZaiShellEnv posixRuntime (sampleRequest (Some (js ''abc123'')) (js ''/tmp/x/.zshrc''))
            (fileFs (js ''/tmp/x/.zshrc'') (js ''export Z_AI_API_KEY_BACKUP="v"''))) =
         Inr \<lparr>status = Skipped,
              message = Some (js ''Z_AI_API_KEY already set in shell profile''),
              path = Some (js ''/tmp/x/.zshrc'')\<rparr>
   \<and> files (snd (ensureZaiShellEnv posixRuntime
                    (sampleRequest (Some (js ''abc123'')) (js ''/tmp/x/.zshrc''))
                    (fileFs (js ''/tmp/x/.zshrc'') (js ''export Z_AI_API_KEY_BACKUP="v"''))))
         (js ''/tmp/x/.zshrc'') = Some (js ''export Z_AI_API_KEY_BACKUP="v"'')\<close>
  by code_simp

section \<open>The provisioner and the file system\<close>

lemma files_tryMkdir: "files (tryMkdir fs d) = files fs"
  by (simp add: tryMkdir_def mkdirSync_def split: option.splits)

lemma readFault_tryMkdir: "readFault (tryMkdir fs d) = readFault fs"
  by (simp add: tryMkdir_def mkdirSync_def split: option.splits)


lemma readExisting_file:
  "files fs p = Some c \<Longrightarrow> readFault fs p = None \<Longrightarrow> readExisting (tryMkdir fs d) p = Inr c"
  by (simp add: readExisting_def existsSync_def readFileSync_def files_tryMkdir readFault_tryMkdir dom_def)

lemma ensure_missing:
  "resolveApiKey rt fs req = Inr None \<Longrightarrow>
   ensureZaiShellEnv rt req fs =
     (Inr \<lparr>status = Skipped, message = Some (js ''Z_AI_API_KEY not set (missing API key)''),
           path = None\<rparr>, fs)"
  by (simp add: ensureZaiShellEnv_def)

lemma ensure_provision:
  assumes "resolveApiKey rt fs req = Inr (Some k)"
    and "normalizeApiKey (env rt (js ''Z_AI_API_KEY'')) = None"
    and "resolveProfile rt fs req = Some p" and "p \<noteq> []"
    and "readExisting (tryMkdir fs (dirname rt p)) p = Inr existing"
  shows "ensureZaiShellEnv rt req fs =
     (let shell = resolveShell rt req; fs1 = tryMkdir fs (dirname rt p) in
      if hasZaiKeyInProfile existing shell
      then (Inr \<lparr>status = Skipped,
                 message = Some (js ''Z_AI_API_KEY already set in shell profile''),
                 path = Some p\<rparr>, fs1)
      else (let next = upsertBlock existing (renderBlock k shell) shell
            in if next = existing
               then (Inr \<lparr>status = Skipped,
                          message = Some (js ''Shell profile already up to date''),
                          path = Some p\<rparr>, fs1)
               else (case writeFileSync fs1 p next of
                       Inl (e, fs2) \<Rightarrow> (Inl e, fs2)
                     | Inr fs2 \<Rightarrow>
                         (Inr \<lparr>status = Updated,
                               message = Some
                                 (if shell = Powershell \<or> shell = PowershellCore
                                  then js ''Run: . $PROFILE''
                                  else js ''Run: source '' @ p),
                               path = Some p\<rparr>, fs2))))"
  using assms by (simp add: ensureZaiShellEnv_def Let_def)

lemma ensure_read_fault:
  assumes "resolveApiKey rt fs req = Inr (Some k)"
    and "normalizeApiKey (env rt (js ''Z_AI_API_KEY'')) = None"
    and "resolveProfile rt fs req = Some p" and "p \<noteq> []"
    and "readExisting (tryMkdir fs (dirname rt p)) p = Inl e"
  shows "ensureZaiShellEnv rt req fs = (Inl e, tryMkdir fs (dirname rt p))"
  using assms by (simp add: ensureZaiShellEnv_def Let_def)




lemma ensure_cases [case_names thrown_settings missing in_env unsupported read_fault in_profile up_to_date write_fault updated]:
  assumes "\<And>e. resolveApiKey rt fs req = Inl e \<Longrightarrow> ensureZaiShellEnv rt req fs = (Inl e, fs) \<Longrightarrow> P"
    and "resolveApiKey rt fs req = Inr None \<Longrightarrow>
         ensureZaiShellEnv rt req fs =
           (Inr \<lparr>status = Skipped, message = Some (js ''Z_AI_API_KEY not set (missing API key)''),
                 path = None\<rparr>, fs) \<Longrightarrow> P"
    and "\<And>k a. resolveApiKey rt fs req = Inr (Some k) \<Longrightarrow>
         normalizeApiKey (env rt (js ''Z_AI_API_KEY'')) = Some a \<Longrightarrow>
         ensureZaiShellEnv rt req fs =
           (Inr \<lparr>status = Skipped, message = Some (js ''Z_AI_API_KEY already set in environment''),
                 path = None\<rparr>, fs) \<Longrightarrow> P"
    and "\<And>k. resolveApiKey rt fs req = Inr (Some k) \<Longrightarrow>
         normalizeApiKey (env rt (js ''Z_AI_API_KEY'')) = None \<Longrightarrow>
         resolveProfile rt fs req = None \<or> resolveProfile rt fs req = Some [] \<Longrightarrow>
         ensureZaiShellEnv rt req fs = (Inr (unsupportedShell rt), fs) \<Longrightarrow> P"
    and "\<And>k p e. resolveApiKey rt fs req = Inr (Some k) \<Longrightarrow>
         normalizeApiKey (env rt (js ''Z_AI_API_KEY'')) = None \<Longrightarrow>
         resolveProfile rt fs req = Some p \<Longrightarrow> p \<noteq> [] \<Longrightarrow>
         readExisting (tryMkdir fs (dirname rt p)) p = Inl e \<Longrightarrow>
         ensureZaiShellEnv rt req fs = (Inl e, tryMkdir fs (dirname rt p)) \<Longrightarrow> P"
    and "\<And>k p existing. resolveApiKey rt fs req = Inr (Some k) \<Longrightarrow>
         normalizeApiKey (env rt (js ''Z_AI_API_KEY'')) = None \<Longrightarrow>
         resolveProfile rt fs req = Some p \<Longrightarrow> p \<noteq> [] \<Longrightarrow>
         readExisting (tryMkdir fs (dirname rt p)) p = Inr existing \<Longrightarrow>
         hasZaiKeyInProfile existing (resolveShell rt req) \<Longrightarrow>
         ensureZaiShellEnv rt req fs =
           (Inr \<lparr>status = Skipped, message = Some (js ''Z_AI_API_KEY already set in shell profile''),
                 path = Some p\<rparr>, tryMkdir fs (dirname rt p)) \<Longrightarrow> P"
    and "\<And>k p existing. resolveApiKey rt fs req = Inr (Some k) \<Longrightarrow>
         normalizeApiKey (env rt (js ''Z_AI_API_KEY'')) = None \<Longrightarrow>
         resolveProfile rt fs req = Some p \<Longrightarrow> p \<noteq> [] \<Longrightarrow>
         readExisting (tryMkdir fs (dirname rt p)) p = Inr existing \<Longrightarrow>
         \<not> hasZaiKeyInProfile existing (resolveShell rt req) \<Longrightarrow>
         upsertBlock existing (renderBlock k (resolveShell rt req)) (resolveShell rt req) = existing \<Longrightarrow>
         ensureZaiShellEnv rt req fs =
           (Inr \<lparr>status = Skipped, message = Some (js ''Shell profile already up to date''),
                 path = Some p\<rparr>, tryMkdir fs (dirname rt p)) \<Longrightarrow> P"
    and "\<And>k p existing e fs2. resolveApiKey rt fs req = Inr (Some k) \<Longrightarrow>
         normalizeApiKey (env rt (js ''Z_AI_API_KEY'')) = None \<Longrightarrow>
         resolveProfile rt fs req = Some p \<Longrightarrow> p \<noteq> [] \<Longrightarrow>
         readExisting (tryMkdir fs (dirname rt p)) p = Inr existing \<Longrightarrow>
         \<not> hasZaiKeyInProfile existing (resolveShell rt req) \<Longrightarrow>
         upsertBlock existing (renderBlock k (resolveShell rt req)) (resolveShell rt req) \<noteq> existing \<Longrightarrow>
         writeFileSync (tryMkdir fs (dirname rt p)) p
           (upsertBlock existing (renderBlock k (resolveShell rt req)) (resolveShell rt req))
           = Inl (e, fs2) \<Longrightarrow>
         ensureZaiShellEnv rt req fs = (Inl e, fs2) \<Longrightarrow> P"
    and "\<And>k p existing fs2. resolveApiKey rt fs req = Inr (Some k) \<Longrightarrow>
         normalizeApiKey (env rt (js ''Z_AI_API_KEY'')) = None \<Longrightarrow>
         resolveProfile rt fs req = Some p \<Longrightarrow> p \<noteq> [] \<Longrightarrow>
         readExisting (tryMkdir fs (dirname rt p)) p = Inr existing \<Longrightarrow>
         \<not> hasZaiKeyInProfile existing (resolveShell rt req) \<Longrightarrow>
         upsertBlock existing (renderBlock k (resolveShell rt req)) (resolveShell rt req) \<noteq> existing \<Longrightarrow>
         writeFileSync (tryMkdir fs (dirname rt p)) p
           (upsertBlock existing (renderBlock k (resolveShell rt req)) (resolveShell rt req)) = Inr fs2 \<Longrightarrow>
         ensureZaiShellEnv rt req fs =
           (Inr \<lparr>status = Updated,
                 message = Some (if resolveShell rt req = Powershell \<or> resolveShell rt req = PowershellCore
                                 then js ''Run: . $PROFILE'' else js ''Run: source '' @ p),
                 path = Some p\<rparr>, fs2) \<Longrightarrow> P"
  shows P
proof (cases "resolveApiKey rt fs req")
  case (Inl e)
  then show ?thesis using assms(1) by (simp add: ensureZaiShellEnv_def)
next
  case (Inr ko)
  show ?thesis
  proof (cases ko)
    case None
    with Inr show ?thesis using assms(2) ensure_missing by simp
  next
    case (Some k)
    note key = Inr [unfolded Some]
    show ?thesis
    proof (cases "normalizeApiKey (env rt (js ''Z_AI_API_KEY''))")
      case (Some a)
      with key show ?thesis using assms(3) by (simp add: ensureZaiShellEnv_def)
    next
      case None
      note envn = None
      show ?thesis
      proof (cases "resolveProfile rt fs req")
        case None
        with key envn show ?thesis using assms(4) by (simp add: ensureZaiShellEnv_def)
      next
        case (Some p)
        show ?thesis
        proof (cases "p = []")
          case True
          with key envn Some show ?thesis using assms(4) by (simp add: ensureZaiShellEnv_def)
        next
          case False
          show ?thesis
          proof (cases "readExisting (tryMkdir fs (dirname rt p)) p")
            case (Inl e)
            from ensure_read_fault [OF key envn Some False Inl] show ?thesis
              using assms(5) key envn Some False Inl by blast
          next
            case (Inr existing)
            note steps = key envn Some False Inr
            let ?sh = "resolveShell rt req"
            let ?next = "upsertBlock existing (renderBlock k ?sh) ?sh"
            show ?thesis
            proof (cases "hasZaiKeyInProfile existing ?sh")
              case True
              with ensure_provision [OF steps] show ?thesis
                using assms(6) [OF steps True] by (simp add: Let_def)
            next
              case nokey: False
              show ?thesis
              proof (cases "?next = existing")
                case True
                with nokey ensure_provision [OF steps] show ?thesis
                  using assms(7) [OF steps nokey True] by (simp add: Let_def)
              next
                case change: False
                show ?thesis
                proof (cases "writeFileSync (tryMkdir fs (dirname rt p)) p ?next")
                  case (Inl ef)
                  obtain e fs2 where ef: "ef = (e, fs2)" by (cases ef)
                  note w = Inl [unfolded ef]
                  with nokey change ensure_provision [OF steps] show ?thesis
                    using assms(8) [OF steps nokey change w] by (simp add: Let_def)
                next
                  case (Inr fs2)
                  with nokey change ensure_provision [OF steps] show ?thesis
                    using assms(9) [OF steps nokey change Inr] by (simp add: Let_def)
                qed
              qed
            qed
          qed
        qed
      qed
    qed
  qed
qed

lemma writeFileSync_files:
  "writeFileSync fs p d = Inr fs' \<Longrightarrow> files fs' = (files fs)(p \<mapsto> d)"
  by (auto simp: writeFileSync_def split: option.splits if_splits writeFailure.splits)




lemma ensure_updated:
  assumes "fst (ensureZaiShellEnv rt req fs) = Inr r" and "status r = Updated"
  shows "\<exists>k p existing. resolveApiKey rt fs req = Inr (Some k)
           \<and> resolveProfile rt fs req = Some p \<and> p \<noteq> []
           \<and> readExisting (tryMkdir fs (dirname rt p)) p = Inr existing
           \<and> files (snd (ensureZaiShellEnv rt req fs))
               = (files fs)(p \<mapsto> upsertBlock existing (renderBlock k (resolveShell rt req))
                                     (resolveShell rt req))"
proof (cases rule: ensure_cases [of rt fs req])
  case (updated k p existing fs2)
  from writeFileSync_files [OF updated(8)] updated(9)
  have "files (snd (ensureZaiShellEnv rt req fs))
      = (files fs)(p \<mapsto> upsertBlock existing (renderBlock k (resolveShell rt req))
                                     (resolveShell rt req))"
    by (simp add: files_tryMkdir)
  with updated show ?thesis by blast
qed (use assms in \<open>auto simp: unsupportedShell_def\<close>)



lemma normalizeApiKey_Some:
  "normalizeApiKey v = Some k \<Longrightarrow> k \<noteq> [] \<and> k \<noteq> PLACEHOLDER_KEY"
  by (auto simp: normalizeApiKey_def Let_def split: option.splits if_splits)

lemma resolveApiKey_Some:
  assumes "resolveApiKey rt fs req = Inr (Some k)"
  shows "k \<noteq> [] \<and> k \<noteq> PLACEHOLDER_KEY"
proof (cases "normalizeApiKey (apiKey req)")
  case None
  with assms have "\<exists>v. normalizeApiKey v = Some k"
    by (auto simp: resolveApiKey_def readSettingsApiKey_def Let_def
        split: if_splits sum.splits option.splits envValue.splits)
  then show ?thesis using normalizeApiKey_Some by blast
next
  case (Some a)
  with assms have "a = k" by (simp add: resolveApiKey_def)
  with Some show ?thesis using normalizeApiKey_Some by blast
qed

lemma detect_ps1:
  "endsWith (basename rt p) (js ''.ps1'') \<Longrightarrow> detectShellFromPath rt p = Powershell"
  by (simp add: detectShellFromPath_def Let_def)

lemma detect_zshrc: "basename rt p = js ''.zshrc'' \<Longrightarrow> detectShellFromPath rt p = Zsh"
  by (simp add: detectShellFromPath_def Let_def endsWith_def js_def)

lemma detect_bash:
  "basename rt p = js ''.bashrc'' \<or> basename rt p = js ''.bash_profile'' \<Longrightarrow>
   detectShellFromPath rt p = Bash"
  by (auto simp: detectShellFromPath_def Let_def endsWith_def js_def)

lemma detect_unknown:
  "\<not> endsWith (basename rt p) (js ''.ps1'') \<Longrightarrow> basename rt p \<noteq> js ''.zshrc'' \<Longrightarrow>
   basename rt p \<noteq> js ''.bashrc'' \<Longrightarrow> basename rt p \<noteq> js ''.bash_profile'' \<Longrightarrow>
   detectShellFromPath rt p = Unknown"
  by (simp add: detectShellFromPath_def Let_def)


lemma resolveShell_explicit:
  "profilePath req = Some p \<Longrightarrow> p \<noteq> [] \<Longrightarrow> resolveShell rt req = detectShellFromPath rt p"
  by (simp add: resolveShell_def)

lemma powershell_block:
  \<open>renderBlock k Powershell =
     BLOCK_START_POWERSHELL @ [newline] @ js ''$env:Z_AI_API_KEY="'' @ k @ js ''"'' @ [newline]
       @ BLOCK_END_POWERSHELL @ [newline]\<close>
  by (simp add: renderBlock_def)


section \<open>Outcomes of the provisioner\<close>

text \<open>
  Claim C5: if neither the explicit request value nor the settings lookup yields a value
  that is non-empty and not the placeholder \<^verbatim>\<open><API_KEY>\<close> after trimming,
  \<^verbatim>\<open>ensureZaiShellEnv\<close> returns \<^verbatim>\<open>skipped\<close> with a message containing \<^verbatim>\<open>missing API key\<close>, and
  the file system is left as it was: no file and no directory is created.
\<close>

theorem ensureZaiShellEnv_missing_api_key:
  assumes "apiKey req = None
           \<or> (\<exists>s. apiKey req = Some s \<and> (trim s = [] \<or> trim s = js ''<API_KEY>''))"
    and "readSettingsApiKey rt fs (configDir req) = Inr None"
  shows "ensureZaiShellEnv rt req fs =
           (Inr \<lparr>status = Skipped,
                 message = Some (js ''Z_AI_API_KEY not set (missing API key)''),
                 path = None\<rparr>, fs)
         \<and> includes_str (js ''Z_AI_API_KEY not set (missing API key)'') (js ''missing API key'')"
proof -
  from assms(1) have "normalizeApiKey (apiKey req) = None"
    by (auto simp: normalizeApiKey_def PLACEHOLDER_KEY_def Let_def)
  with assms(2) have "resolveApiKey rt fs req = Inr None"
    by (simp add: resolveApiKey_def)
  moreover have "includes_str (js ''Z_AI_API_KEY not set (missing API key)'') (js ''missing API key'')"
    by code_simp
  ultimately show ?thesis using ensure_missing by blast
qed

text \<open>
  C5 on the scenario of the test suite: no explicit key, a settings document whose key is
  the placeholder, and a profile path that does not exist.
\<close>

theorem ensureZaiShellEnv_missing_api_key_witness:
  "apiKey (sampleRequest None (js ''/tmp/x/.zshrc'')) = None
   \<and> readSettingsApiKey placeholderRuntime settingsFs
        (configDir (sampleRequest None (js ''/tmp/x/.zshrc''))) = Inr None
   \<and> ensureZaiShellEnv placeholderRuntime (sampleRequest None (js ''/tmp/x/.zshrc'')) settingsFs =
        (Inr \<lparr>status = Skipped,
              message = Some (js ''Z_AI_API_KEY not set (missing API key)''),
              path = None\<rparr>, settingsFs)
   \<and> files settingsFs (js ''/tmp/x/.zshrc'') = None"
proof -
  have h1: "apiKey (sampleRequest None (js ''/tmp/x/.zshrc'')) = None
      \<or> (\<exists>s. apiKey (sampleRequest None (js ''/tmp/x/.zshrc'')) = Some s
              \<and> (trim s = [] \<or> trim s = js ''<API_KEY>''))"
    by (simp add: sampleRequest_def)
  have h2: "readSettingsApiKey placeholderRuntime settingsFs
        (configDir (sampleRequest None (js ''/tmp/x/.zshrc''))) = Inr None"
    by code_simp
  have f: "files settingsFs (js ''/tmp/x/.zshrc'') = None"
    by code_simp
  from ensureZaiShellEnv_missing_api_key [OF h1 h2] h2 f show ?thesis
    by (simp add: sampleRequest_def)
qed

text \<open>
  Claim C6: once a key is resolved, the variable is not set in the environment and the
  profile is located, a profile whose content already holds an effective assignment makes
  \<^verbatim>\<open>ensureZaiShellEnv\<close> return \<^verbatim>\<open>skipped\<close> with a message containing
  \<^verbatim>\<open>already set in shell profile\<close>, and no file changes: the profile keeps its content,
  whatever the requested key is.
\<close>

theorem ensureZaiShellEnv_profile_already_set:
  assumes "resolveApiKey rt fs req = Inr (Some k)"
    and "normalizeApiKey (env rt (js ''Z_AI_API_KEY'')) = None"
    and "resolveProfile rt fs req = Some p" and "p \<noteq> []"
    and "files fs p = Some c" and "readFault fs p = None"
    and "hasZaiKeyInProfile c (resolveShell rt req)"
  shows "fst (ensureZaiShellEnv rt req fs) =
           Inr \<lparr>status = Skipped,
                message = Some (js ''Z_AI_API_KEY already set in shell profile''),
                path = Some p\<rparr>
         \<and> includes_str (js ''Z_AI_API_KEY already set in shell profile'')
              (js ''already set in shell profile'')
         \<and> files (snd (ensureZaiShellEnv rt req fs)) = files fs
         \<and> files (snd (ensureZaiShellEnv rt req fs)) p = Some c"
proof -
  have r: "readExisting (tryMkdir fs (dirname rt p)) p = Inr c"
    using assms(5,6) by (rule readExisting_file)
  from ensure_provision [OF assms(1-4) r] assms(7)
  have e: "ensureZaiShellEnv rt req fs =
      (Inr \<lparr>status = Skipped, message = Some (js ''Z_AI_API_KEY already set in shell profile''),
            path = Some p\<rparr>, tryMkdir fs (dirname rt p))"
    by (simp add: Let_def)
  have i: "includes_str (js ''Z_AI_API_KEY already set in shell profile'')
              (js ''already set in shell profile'')"
    by code_simp
  from e i assms(5) show ?thesis by (simp add: files_tryMkdir)
qed

text \<open>
  C6 on the scenario of the test suite: the profile holds \<^verbatim>\<open>existing-key\<close>, the request asks
  for \<^verbatim>\<open>new-key\<close>.
\<close>

theorem ensureZaiShellEnv_profile_already_set_witness:
  \<open>resolveApiKey posixRuntime
       (fileFs (js ''/tmp/x/.zshrc'') (js ''export Z_AI_API_KEY="existing-key"'' @ [newline]))
       (sampleRequest (Some (js ''new-key'')) (js ''/tmp/x/.zshrc'')) = Inr (Some (js ''new-key''))
   \<and> hasZaiKeyInProfile (js ''export Z_AI_API_KEY="existing-key"'' @ [newline])
        (resolveShell posixRuntime (sampleRequest (Some (js ''new-key'')) (js ''/tmp/x/.zshrc'')))
   \<and> fst (ensureZaiShellEnv posixRuntime (sampleRequest (Some (js ''new-key'')) (js ''/tmp/x/.zshrc''))
            (fileFs (js ''/tmp/x/.zshrc'') (js ''export Z_AI_API_KEY="existing-key"'' @ [newline]))) =
         Inr \<lparr>status = Skipped,
              message = Some (js ''Z_AI_API_KEY already set in shell profile''),
              path = Some (js ''/tmp/x/.zshrc'')\<rparr>
   \<and> files (snd (ensureZaiShellEnv posixRuntime
                    (sampleRequest (Some (js ''new-key'')) (js ''/tmp/x/.zshrc''))
                    (fileFs (js ''/tmp/x/.zshrc'') (js ''export Z_AI_API_KEY="existing-key"'' @ [newline]))))
         (js ''/tmp/x/.zshrc'') = Some (js ''export Z_AI_API_KEY="existing-key"'' @ [newline])\<close>
proof -
  let ?p = "js ''/tmp/x/.zshrc''"
  let ?c = \<open>js ''export Z_AI_API_KEY="existing-key"'' @ [newline]\<close>
  let ?req = "sampleRequest (Some (js ''new-key'')) ?p"
  have h1: "resolveApiKey posixRuntime (fileFs ?p ?c) ?req = Inr (Some (js ''new-key''))"
    by code_simp
  have h2: "normalizeApiKey (env posixRuntime (js ''Z_AI_API_KEY'')) = None"
    by code_simp
  have h3: "resolveProfile posixRuntime (fileFs ?p ?c) ?req = Some ?p"
    by code_simp
  have h4: "?p \<noteq> []" by code_simp
  have h5: "files (fileFs ?p ?c) ?p = Some ?c" by (simp add: fileFs_def)
  have h6: "readFault (fileFs ?p ?c) ?p = None" by (simp add: fileFs_def emptyFs_def)
  have h7: "hasZaiKeyInProfile ?c (resolveShell posixRuntime ?req)" by code_simp
  from ensureZaiShellEnv_profile_already_set [OF h1 h2 h3 h4 h5 h6 h7] h1 h7
  show ?thesis by blast
qed

text \<open>
  Claim C8: \<^verbatim>\<open>detectShellFromPath\<close> maps a base name ending in \<^verbatim>\<open>.ps1\<close> to PowerShell,
  \<^verbatim>\<open>.zshrc\<close> to zsh, \<^verbatim>\<open>.bashrc\<close> and \<^verbatim>\<open>.bash_profile\<close> to bash, and every other path to
  unknown; and when a call with an explicit \<^verbatim>\<open>.ps1\<close> profile path returns \<^verbatim>\<open>updated\<close>, the
  profile written holds the block with the line \<^verbatim>\<open>$env:Z_AI_API_KEY="key"\<close> between the
  markers, for the resolved key, which is neither empty nor the placeholder.
\<close>

theorem detectShellFromPath_dialects_and_powershell_block:
  \<open>(endsWith (basename rt p) (js ''.ps1'') \<longrightarrow> detectShellFromPath rt p = Powershell)
   \<and> (basename rt p = js ''.zshrc'' \<longrightarrow> detectShellFromPath rt p = Zsh)
   \<and> (basename rt p = js ''.bashrc'' \<or> basename rt p = js ''.bash_profile''
        \<longrightarrow> detectShellFromPath rt p = Bash)
   \<and> (\<not> endsWith (basename rt p) (js ''.ps1'') \<and> basename rt p \<noteq> js ''.zshrc''
        \<and> basename rt p \<noteq> js ''.bashrc'' \<and> basename rt p \<noteq> js ''.bash_profile''
        \<longrightarrow> detectShellFromPath rt p = Unknown)
   \<and> (profilePath req = Some p \<and> endsWith (basename rt p) (js ''.ps1'')
        \<and> fst (ensureZaiShellEnv rt req fs) = Inr r \<and> status r = Updated
        \<longrightarrow> (\<exists>k pre post. resolveApiKey rt fs req = Inr (Some k) \<and> k \<noteq> []
                  \<and> k \<noteq> PLACEHOLDER_KEY
                  \<and> files (snd (ensureZaiShellEnv rt req fs)) p =
                      Some (pre @ BLOCK_START_POWERSHELL @ [newline]
                            @ js ''$env:Z_AI_API_KEY="'' @ k @ js ''"'' @ [newline]
                            @ BLOCK_END_POWERSHELL @ [newline] @ post)))\<close>
proof (intro conjI impI)
  assume a: \<open>profilePath req = Some p \<and> endsWith (basename rt p) (js ''.ps1'')
        \<and> fst (ensureZaiShellEnv rt req fs) = Inr r \<and> status r = Updated\<close>
  then have pp: "profilePath req = Some p" and ps: "endsWith (basename rt p) (js ''.ps1'')"
    and u: "fst (ensureZaiShellEnv rt req fs) = Inr r" "status r = Updated" by simp_all
  from ensure_updated [OF u] obtain k p' existing where
    k: "resolveApiKey rt fs req = Inr (Some k)" and
    p': "resolveProfile rt fs req = Some p'" "p' \<noteq> []" and
    f: "files (snd (ensureZaiShellEnv rt req fs))
          = (files fs)(p' \<mapsto> upsertBlock existing (renderBlock k (resolveShell rt req))
                                     (resolveShell rt req))" by blast
  from p' pp have e: "p' = p" by (simp add: resolveProfile_def)
  with p' pp ps have sh: "resolveShell rt req = Powershell"
    by (simp add: resolveShell_explicit detect_ps1)
  obtain pre post where
    "upsertBlock existing (renderBlock k Powershell) Powershell = pre @ renderBlock k Powershell @ post"
    using upsertBlock_contains_block by blast
  with f e sh have \<open>files (snd (ensureZaiShellEnv rt req fs)) p =
                      Some (pre @ BLOCK_START_POWERSHELL @ [newline]
                            @ js ''$env:Z_AI_API_KEY="'' @ k @ js ''"'' @ [newline]
                            @ BLOCK_END_POWERSHELL @ [newline] @ post)\<close>
    by (simp add: powershell_block)
  with k resolveApiKey_Some [OF k]
  show \<open>\<exists>k pre post. resolveApiKey rt fs req = Inr (Some k) \<and> k \<noteq> []
                  \<and> k \<noteq> PLACEHOLDER_KEY
                  \<and> files (snd (ensureZaiShellEnv rt req fs)) p =
                      Some (pre @ BLOCK_START_POWERSHELL @ [newline]
                            @ js ''$env:Z_AI_API_KEY="'' @ k @ js ''"'' @ [newline]
                            @ BLOCK_END_POWERSHELL @ [newline] @ post)\<close>
    by blast
qed (simp_all add: detect_ps1 detect_zshrc detect_bash detect_unknown)

text \<open>
  C8 at one path for each dialect, and at a fresh PowerShell profile with the key of the
  test suite.
\<close>

theorem detectShellFromPath_dialects_and_powershell_block_witness:
  \<open>endsWith (basename posixRuntime (js ''/tmp/x/Microsoft.PowerShell_profile.ps1'')) (js ''.ps1'')
   \<and> detectShellFromPath posixRuntime (js ''/tmp/x/Microsoft.PowerShell_profile.ps1'') = Powershell
   \<and> basename posixRuntime (js ''/tmp/x/.zshrc'') = js ''.zshrc''
   \<and> detectShellFromPath posixRuntime (js ''/tmp/x/.zshrc'') = Zsh
   \<and> basename posixRuntime (js ''/tmp/x/.bash_profile'') = js ''.bash_profile''
   \<and> detectShellFromPath posixRuntime (js ''/tmp/x/.bash_profile'') = Bash
   \<and> \<not> endsWith (basename posixRuntime (js ''/tmp/x/profile'')) (js ''.ps1'')
   \<and> basename posixRuntime (js ''/tmp/x/profile'') \<noteq> js ''.zshrc''
   \<and> basename posixRuntime (js ''/tmp/x/profile'') \<noteq> js ''.bashrc''
   \<and> basename posixRuntime (js ''/tmp/x/profile'') \<noteq> js ''.bash_profile''
   \<and> detectShellFromPath posixRuntime (js ''/tmp/x/profile'') = Unknown
   \<and> profilePath (sampleRequest (Some (js ''xyz789'')) (js ''/tmp/x/Microsoft.PowerShell_profile.ps1''))
        = Some (js ''/tmp/x/Microsoft.PowerShell_profile.ps1'')
   \<and> fst (ensureZaiShellEnv posixRuntime
              (sampleRequest (Some (js ''xyz789'')) (js ''/tmp/x/Microsoft.PowerShell_profile.ps1''))
              emptyFs)
        = Inr \<lparr>status = Updated, message = Some (js ''Run: . $PROFILE''),
               path = Some (js ''/tmp/x/Microsoft.PowerShell_profile.ps1'')\<rparr>
   \<and> (\<exists>k pre post.
          resolveApiKey posixRuntime emptyFs
            (sampleRequest (Some (js ''xyz789'')) (js ''/tmp/x/Microsoft.PowerShell_profile.ps1''))
            = Inr (Some k)
          \<and> k \<noteq> [] \<and> k \<noteq> PLACEHOLDER_KEY
          \<and> files (snd (ensureZaiShellEnv posixRuntime
                (sampleRequest (Some (js ''xyz789'')) (js ''/tmp/x/Microsoft.PowerShell_profile.ps1''))
                emptyFs)) (js ''/tmp/x/Microsoft.PowerShell_profile.ps1'') =
              Some (pre @ BLOCK_START_POWERSHELL @ [newline]
                    @ js ''$env:Z_AI_API_KEY="'' @ k @ js ''"'' @ [newline]
                    @ BLOCK_END_POWERSHELL @ [newline] @ post))\<close>
proof -
  let ?ps = "js ''/tmp/x/Microsoft.PowerShell_profile.ps1''"
  let ?req = "sampleRequest (Some (js ''xyz789'')) ?ps"
  let ?r = "\<lparr>status = Updated, message = Some (js ''Run: . $PROFILE''), path = Some ?ps\<rparr>"
  have a1: "endsWith (basename posixRuntime ?ps) (js ''.ps1'')" by code_simp
  have a2: "basename posixRuntime (js ''/tmp/x/.zshrc'') = js ''.zshrc''" by code_simp
  have a3: "basename posixRuntime (js ''/tmp/x/.bash_profile'') = js ''.bash_profile''" by code_simp
  have a4: "\<not> endsWith (basename posixRuntime (js ''/tmp/x/profile'')) (js ''.ps1'')
      \<and> basename posixRuntime (js ''/tmp/x/profile'') \<noteq> js ''.zshrc''
      \<and> basename posixRuntime (js ''/tmp/x/profile'') \<noteq> js ''.bashrc''
      \<and> basename posixRuntime (js ''/tmp/x/profile'') \<noteq> js ''.bash_profile''" by code_simp
  have a5: "profilePath ?req = Some ?ps" by (simp add: sampleRequest_def)
  have a6: "fst (ensureZaiShellEnv posixRuntime ?req emptyFs) = Inr ?r" by code_simp
  have a7: "status ?r = Updated" by simp
  note t = detectShellFromPath_dialects_and_powershell_block
  from t [of posixRuntime ?ps] a1
  have c1: "detectShellFromPath posixRuntime ?ps = Powershell" by blast
  from t [of posixRuntime "js ''/tmp/x/.zshrc''"] a2
  have c2: "detectShellFromPath posixRuntime (js ''/tmp/x/.zshrc'') = Zsh" by blast
  from t [of posixRuntime "js ''/tmp/x/.bash_profile''"] a3
  have c3: "detectShellFromPath posixRuntime (js ''/tmp/x/.bash_profile'') = Bash" by blast
  from t [of posixRuntime "js ''/tmp/x/profile''"] a4
  have c4: "detectShellFromPath posixRuntime (js ''/tmp/x/profile'') = Unknown" by blast
  from t [of posixRuntime ?ps ?req emptyFs ?r] a1 a5 a6 a7
  have c5: \<open>\<exists>k pre post.
          resolveApiKey posixRuntime emptyFs ?req = Inr (Some k)
          \<and> k \<noteq> [] \<and> k \<noteq> PLACEHOLDER_KEY
          \<and> files (snd (ensureZaiShellEnv posixRuntime ?req emptyFs)) ?ps =
              Some (pre @ BLOCK_START_POWERSHELL @ [newline]
                    @ js ''$env:Z_AI_API_KEY="'' @ k @ js ''"'' @ [newline]
                    @ BLOCK_END_POWERSHELL @ [newline] @ post)\<close> by blast
  from a1 a2 a3 a4 a5 a6 c1 c2 c3 c4 c5 show ?thesis by blast
qed







text \<open>
  What the failed write of that run leaves behind: the profile, which did not exist, now
  exists and is empty.
\<close>

lemma failed_write_leaves_empty_profile:
  "files (faultyFs (js ''/tmp/x/.bashrc'') (WriteFails (js ''ENOSPC: no space left on device, write'') 0))
     (js ''/tmp/x/.bashrc'') = None
   \<and> files (snd (ensureZaiShellEnv posixRuntime
                    (sampleRequest (Some (js ''abc123'')) (js ''/tmp/x/.bashrc''))
                    (faultyFs (js ''/tmp/x/.bashrc'')
                       (WriteFails (js ''ENOSPC: no space left on device, write'') 0))))
       (js ''/tmp/x/.bashrc'') = Some []"
  by code_simp

end
